theory Spec2Isabelle
  imports Main "HOL-Library.Char_ord" "HOL-Library.List_Lexorder" "HOL-Library.Multiset"
    "HOL-Library.Word"
begin

section \<open>The tree-backed in-memory file system\<close>

text \<open>
  This theory embeds the tree-backed \<open>MemFS\<close> of package \<open>simplefs\<close>: the type
  \<open>dirNode\<close> with its methods \<open>Get\<close>, \<open>AddChild\<close>, \<open>AddDescendant\<close>,
  \<open>GetOrAdd\<close>, \<open>DFS\<close> and \<open>Path\<close>, the helpers \<open>nameToPath\<close> and \<open>getBytes\<close>, the
  facade operations \<open>Create\<close>, \<open>Append\<close>, \<open>Open\<close>, \<open>ListFiles\<close> and \<open>ReadDir\<close>, the
  handles \<open>memFile\<close> and \<open>memDir\<close>, and \<open>writeCloser\<close> with its \<open>closeFn\<close>. (The
  package also holds a \<open>MemFS\<close> over a flat map from full names to buffers, with no
  nodes, no resolution of \<open>.\<close> and \<open>..\<close> and no commit on close; it is not the subject
  here.)

  Conventions of the embedding.
  \<^item> A Go string is a byte sequence: \<open>string\<close> (a list of 8-bit \<open>char\<close>). Go compares
    strings bytewise and lexicographically, which is the order of \<open>List_Lexorder\<close> over
    \<open>Char_ord\<close>.
  \<^item> A \<open>[]byte\<close> is a \<open>byte list option\<close>: \<open>None\<close> is the nil slice, \<open>Some bs\<close> a
    non-nil slice holding \<open>bs\<close> (\<open>Some []\<close> is \<open>make([]byte, 0)\<close>). Slices are
    modelled by their contents. This is exact as long as a write handle is not written
    to after its \<open>Close\<close>: a \<open>bytes.Buffer\<close> then writes into the array that the node's
    \<open>B\<close> is a prefix of.
  \<^item> A \<open>*dirNode\<close> is a \<open>nat option\<close>: \<open>None\<close> is nil, \<open>Some a\<close> points at cell \<open>a\<close>
    of the store (field \<open>heap\<close> of the state), the list of every \<open>dirNode\<close> allocated
    so far. \<open>&dirNode{...}\<close> appends a cell. Nothing is ever freed.
  \<^item> The \<open>sync.RWMutex\<close> is not modelled: operations run one after the other, each
    under the lock it takes.
  \<^item> A panic is the error value \<open>Panic\<close>.
\<close>

type_synonym byte = "8 word"

datatype error = ErrNotFound | EOF | Errorf string | Panic string

record dirNode =
  Name :: string
  Parent :: "nat option"
  Children :: "nat list"
  B :: "byte list option"

record MemFS =
  root :: "nat option"
  heap :: "dirNode list"

datatype dirEntry = DirEntry (de_name: string) (de_isDir: bool)

subsection \<open>Helpers\<close>

text \<open>\<open>strings.Split(name, "/")\<close>: one more piece than there are separators.\<close>

fun nameToPath :: "string \<Rightarrow> string list" where
  "nameToPath [] = [[]]"
| "nameToPath (c # cs) =
     (if c = CHR ''/'' then [] # nameToPath cs
      else (case nameToPath cs of [] \<Rightarrow> [[c]] | s # ss \<Rightarrow> (c # s) # ss))"

text \<open>
  A \<open>bytes.Buffer\<close> is modelled by the slice \<open>Bytes()\<close> returns: nil until the first
  non-empty write.
\<close>

definition Buffer_Write :: "byte list option \<Rightarrow> byte list \<Rightarrow> byte list option" where
  "Buffer_Write buf p =
     (if p = [] then buf else Some ((case buf of None \<Rightarrow> [] | Some b \<Rightarrow> b) @ p))"

definition getBytes :: "byte list option \<Rightarrow> byte list option" where
  "getBytes buf = (case buf of Some b \<Rightarrow> Some b | None \<Rightarrow> Some [])"

text \<open>Go's \<open>append(s, elems...)\<close>: nothing to add returns \<open>s\<close> itself, nil included.\<close>

definition go_append :: "byte list option \<Rightarrow> byte list option \<Rightarrow> byte list option" where
  "go_append s elems =
     (case elems of
        None \<Rightarrow> s
      | Some es \<Rightarrow>
          (if es = [] then s else Some ((case s of None \<Rightarrow> [] | Some x \<Rightarrow> x) @ es)))"

subsection \<open>dirNode\<close>

definition IsDirectory :: "dirNode \<Rightarrow> bool" where
  "IsDirectory node = (B node = None)"

text \<open>\<open>dirNodeSlice.Get\<close>: the first node of the slice with that name.\<close>

definition dirNodeSlice_Get :: "dirNode list \<Rightarrow> nat list \<Rightarrow> string \<Rightarrow> nat option" where
  "dirNodeSlice_Get h s name = find (\<lambda>c. Name (h ! c) = name) s"

text \<open>
  \<open>dirNode.Get\<close>. \<open>Get_next\<close> is its \<open>switch\<close>: the node the first segment leads to.
  \<open>Get\<close> takes a path of at least one segment as its first segment and the rest (the
  recursive call is made only when \<open>len(path) > 1\<close>); the check \<open>len(path) == 0\<close> at the
  entry is in \<open>dirNode_Get\<close>.
\<close>

definition Get_next :: "dirNode list \<Rightarrow> nat \<Rightarrow> string \<Rightarrow> nat option" where
  "Get_next h node p =
     (if p = ''.'' then Some node
      else if p = ''..'' then Parent (h ! node)
      else dirNodeSlice_Get h (Children (h ! node)) p)"

fun Get :: "dirNode list \<Rightarrow> nat \<Rightarrow> string \<Rightarrow> string list \<Rightarrow> nat option" where
  "Get h node p [] = Get_next h node p"
| "Get h node p (q # rest) =
     (case Get_next h node p of None \<Rightarrow> None | Some next \<Rightarrow> Get h next q rest)"

definition dirNode_Get :: "dirNode list \<Rightarrow> nat \<Rightarrow> string list \<Rightarrow> error + nat option" where
  "dirNode_Get h node path =
     (case path of [] \<Rightarrow> Inl (Panic '':('') | p # rest \<Rightarrow> Inr (Get h node p rest))"

text \<open>
  \<open>AddChild\<close>: allocate the child, append it to the node's children, sort them by name.
  \<open>sort.Sort\<close> is not stable; \<open>AddChild\<close> is only called for a name no child has, so
  the names are distinct and there is one sorted order.
\<close>

definition AddChild :: "dirNode list \<Rightarrow> nat \<Rightarrow> string \<Rightarrow> byte list option \<Rightarrow> dirNode list \<times> nat" where
  "AddChild h node name b =
     (let child = length h;
          h1 = h @ [\<lparr>Name = name, Parent = Some node, Children = [], B = b\<rparr>];
          h2 = h1[node := (h1 ! node)\<lparr>Children := Children (h1 ! node) @ [child]\<rparr>];
          h3 = h2[node := (h2 ! node)\<lparr>Children := sort_key (\<lambda>c. Name (h2 ! c)) (Children (h2 ! node))\<rparr>]
      in (h3, child))"

text \<open>\<open>AddDescendant\<close> on a path of at least one segment (\<open>path[0]\<close> and \<open>path[1:]\<close>).\<close>

fun AddDescendant :: "dirNode list \<Rightarrow> nat \<Rightarrow> byte list option \<Rightarrow> string \<Rightarrow> string list \<Rightarrow> dirNode list \<times> nat" where
  "AddDescendant h node b childName [] =
     (case dirNodeSlice_Get h (Children (h ! node)) childName of
        None \<Rightarrow> AddChild h node childName b
      | Some child \<Rightarrow> (h, child))"
| "AddDescendant h node b childName (q # rest) =
     (case dirNodeSlice_Get h (Children (h ! node)) childName of
        None \<Rightarrow> (case AddChild h node childName None of (h1, child) \<Rightarrow> AddDescendant h1 child b q rest)
      | Some child \<Rightarrow> AddDescendant h child b q rest)"

definition GetOrAdd :: "dirNode list \<Rightarrow> nat \<Rightarrow> byte list option \<Rightarrow> string list \<Rightarrow> error + dirNode list \<times> nat" where
  "GetOrAdd h node b path =
     (case path of
        [] \<Rightarrow> Inl (Panic '':('')
      | p # rest \<Rightarrow>
          (case Get h node p rest of
             Some got \<Rightarrow> Inr (h, got)
           | None \<Rightarrow> Inr (AddDescendant h node b p rest)))"

text \<open>
  \<open>DFS\<close> and \<open>Path\<close> recurse along pointers, so they carry fuel: \<open>None\<close> is a traversal
  that does not return (a cycle). \<open>DFS\<close> returns the nodes in the order \<open>fn\<close> is called
  on them.
\<close>

fun DFS :: "nat \<Rightarrow> dirNode list \<Rightarrow> nat \<Rightarrow> nat list option" where
  "DFS 0 h node = None"
| "DFS (Suc k) h node =
     (case those (map (DFS k h) (Children (h ! node))) of
        None \<Rightarrow> None
      | Some visited \<Rightarrow> Some (node # concat visited))"

fun Path :: "nat \<Rightarrow> dirNode list \<Rightarrow> nat \<Rightarrow> string option" where
  "Path 0 h node = (case Parent (h ! node) of None \<Rightarrow> Some (Name (h ! node)) | Some p \<Rightarrow> None)"
| "Path (Suc k) h node =
     (case Parent (h ! node) of
        None \<Rightarrow> Some (Name (h ! node))
      | Some p \<Rightarrow> (case Path k h p of None \<Rightarrow> None | Some pp \<Rightarrow> Some (pp @ ''/'' @ Name (h ! node))))"

subsection \<open>Write handles\<close>

text \<open>
  The two closures handed to \<open>writeCloser\<close>: \<open>addNode\<close> (built by \<open>Create\<close>, it captures
  the name) and \<open>updateNode\<close> (built by \<open>Append\<close>, it captures the node found). Both
  capture the handle's own buffer, which is the field \<open>wc_w\<close>.
\<close>

datatype closure = addNode string | updateNode nat

datatype writeCloser = WriteCloser (wc_w: "byte list option") (wc_closeFn: "closure option")

definition writeCloser_Write :: "writeCloser \<Rightarrow> byte list \<Rightarrow> writeCloser \<times> nat" where
  "writeCloser_Write wc p = (WriteCloser (Buffer_Write (wc_w wc) p) (wc_closeFn wc), length p)"

definition nil_deref :: error where
  "nil_deref = Panic ''invalid memory address or nil pointer dereference''"

definition writeCloser_Close :: "MemFS \<Rightarrow> writeCloser \<Rightarrow> MemFS \<times> error option" where
  "writeCloser_Close fs wc =
     (case wc_closeFn wc of
        None \<Rightarrow> (fs, None)
      | Some (addNode name) \<Rightarrow>
          (let b = getBytes (wc_w wc) in
           case root fs of
             None \<Rightarrow> (fs, Some nil_deref)
           | Some r \<Rightarrow>
               (case GetOrAdd (heap fs) r b (nameToPath name) of
                  Inl e \<Rightarrow> (fs, Some e)
                | Inr (h, node) \<Rightarrow> (fs\<lparr>heap := h[node := (h ! node)\<lparr>B := b\<rparr>]\<rparr>, None)))
      | Some (updateNode got) \<Rightarrow>
          (let b = getBytes (wc_w wc); h = heap fs in
           (fs\<lparr>heap := h[got := (h ! got)\<lparr>B := go_append (B (h ! got)) b\<rparr>]\<rparr>, None)))"

subsection \<open>Read handles\<close>

datatype memFile = MemFile (mf_name: string) (mf_buf: "byte list")

datatype memDir = MemDir (md_name: string) (md_readDirEntries: "dirEntry list option")

datatype File = FileHandle memFile | DirHandle memDir

text \<open>\<open>memFile.Read(p)\<close> with \<open>len(p) = k\<close>: the handle after the call, the bytes, the error.\<close>

definition memFile_Read :: "memFile \<Rightarrow> nat \<Rightarrow> memFile \<times> byte list \<times> error option" where
  "memFile_Read f k =
     (if mf_buf f = [] then (if k = 0 then (f, [], None) else (f, [], Some EOF))
      else (MemFile (mf_name f) (drop k (mf_buf f)), take k (mf_buf f), None))"

text \<open>
  \<open>ioutil.ReadAll\<close> on a file handle, the full read of the battery: call \<open>Read\<close> until
  it returns an error, collect the bytes, and turn \<open>io.EOF\<close> into success. The library
  passes \<open>Read\<close> the free part of a buffer that starts at 512 bytes and grows; the model
  passes 512 every time, and the result does not depend on the sizes as long as they are
  positive.
\<close>

function ReadAll :: "memFile \<Rightarrow> byte list \<times> error option" where
  "ReadAll f =
     (case memFile_Read f 512 of
        (f1, bs, err) \<Rightarrow>
          (case err of
             Some e \<Rightarrow> (bs, if e = EOF then None else Some e)
           | None \<Rightarrow> (case ReadAll f1 of (rest, err1) \<Rightarrow> (bs @ rest, err1))))"
  by pat_completeness auto
termination
  by (relation "measure (\<lambda>f. length (mf_buf f))")
    (auto simp add: memFile_Read_def split: if_splits)

definition memFile_ReadDir :: "memFile \<Rightarrow> int \<Rightarrow> dirEntry list \<times> error option" where
  "memFile_ReadDir f n =
     ([], Some (Errorf (''cannot ReadDir '' @ [CHR 0x27] @ mf_name f @ [CHR 0x27] @ ''. Path is a file'')))"

definition memDir_Read :: "memDir \<Rightarrow> nat \<Rightarrow> nat \<times> error option" where
  "memDir_Read dir k =
     (0, Some (Errorf (''cannot read '' @ [CHR 0x27] @ md_name dir @ [CHR 0x27] @ ''. Path is a directory'')))"

subsection \<open>MemFS\<close>

definition MemFS_init :: "MemFS \<Rightarrow> MemFS" where
  "MemFS_init fs =
     (case root fs of
        None \<Rightarrow> fs\<lparr>root := Some (length (heap fs)),
                   heap := heap fs @ [\<lparr>Name = [], Parent = None, Children = [], B = None\<rparr>]\<rparr>
      | Some r \<Rightarrow> fs)"

text \<open>\<open>Create\<close> never returns an error; the pair is the state and the handle.\<close>

definition MemFS_Create :: "MemFS \<Rightarrow> string \<Rightarrow> MemFS \<times> writeCloser" where
  "MemFS_Create fs name = (MemFS_init fs, WriteCloser None (Some (addNode name)))"

definition MemFS_Append :: "MemFS \<Rightarrow> string \<Rightarrow> MemFS \<times> (error + writeCloser)" where
  "MemFS_Append fs name =
     (let fs1 = MemFS_init fs in
      case root fs1 of
        None \<Rightarrow> (fs1, Inl nil_deref)
      | Some r \<Rightarrow>
          (case dirNode_Get (heap fs1) r (nameToPath name) of
             Inl e \<Rightarrow> (fs1, Inl e)
           | Inr None \<Rightarrow> (case MemFS_Create fs1 name of (fs2, wc) \<Rightarrow> (fs2, Inr wc))
           | Inr (Some got) \<Rightarrow> (fs1, Inr (WriteCloser None (Some (updateNode got))))))"

definition MemFS_Open :: "MemFS \<Rightarrow> string \<Rightarrow> MemFS \<times> (error + File)" where
  "MemFS_Open fs name =
     (let fs1 = MemFS_init fs in
      case root fs1 of
        None \<Rightarrow> (fs1, Inl nil_deref)
      | Some r \<Rightarrow>
          (case dirNode_Get (heap fs1) r (nameToPath name) of
             Inl e \<Rightarrow> (fs1, Inl e)
           | Inr None \<Rightarrow> (fs1, Inl ErrNotFound)
           | Inr (Some node) \<Rightarrow>
               (if IsDirectory (heap fs1 ! node) then (fs1, Inr (DirHandle (MemDir name None)))
                else (fs1, Inr (FileHandle (MemFile name
                        (case B (heap fs1 ! node) of None \<Rightarrow> [] | Some bs \<Rightarrow> bs)))))))"

text \<open>
  \<open>ListFiles\<close>: the outer \<open>option\<close> is \<open>None\<close> when the traversal does not return. The
  fuel is the number of cells, which bounds the depth of any tree in the store.
\<close>

definition MemFS_ListFiles :: "MemFS \<Rightarrow> string \<Rightarrow> (MemFS \<times> (error + string list)) option" where
  "MemFS_ListFiles fs dir =
     (let fs1 = MemFS_init fs; h = heap fs1 in
      case root fs1 of
        None \<Rightarrow> Some (fs1, Inl nil_deref)
      | Some r \<Rightarrow>
          (case dirNode_Get h r (nameToPath dir) of
             Inl e \<Rightarrow> Some (fs1, Inl e)
           | Inr None \<Rightarrow> Some (fs1, Inl nil_deref)
           | Inr (Some node) \<Rightarrow>
               (if \<not> IsDirectory (h ! node) then Some (fs1, Inl ErrNotFound)
                else (case DFS (length h) h node of
                        None \<Rightarrow> None
                      | Some visited \<Rightarrow>
                          (case those (map (Path (length h) h) visited) of
                             None \<Rightarrow> None
                           | Some names \<Rightarrow> Some (fs1, Inr names))))))"

text \<open>
  \<open>ReadDir\<close>: one entry per child, sorted by name with \<open>sort.Slice\<close> (not stable; the
  names of a directory's children are distinct).
\<close>

definition MemFS_ReadDir :: "MemFS \<Rightarrow> string \<Rightarrow> MemFS \<times> (error + dirEntry list)" where
  "MemFS_ReadDir fs dir =
     (let fs1 = MemFS_init fs; h = heap fs1 in
      case root fs1 of
        None \<Rightarrow> (fs1, Inl nil_deref)
      | Some r \<Rightarrow>
          (case dirNode_Get h r (nameToPath dir) of
             Inl e \<Rightarrow> (fs1, Inl e)
           | Inr None \<Rightarrow> (fs1, Inl ErrNotFound)
           | Inr (Some node) \<Rightarrow>
               (if \<not> IsDirectory (h ! node) then (fs1, Inl ErrNotFound)
                else (fs1, Inr (sort_key de_name
                        (map (\<lambda>child. DirEntry (Name (h ! child)) (IsDirectory (h ! child)))
                           (Children (h ! node))))))))"

text \<open>
  \<open>memDir.ReadDir(n)\<close>: the file system (the handle holds a pointer to it), the handle
  after the call, the entries and the error returned.
\<close>

definition memDir_ReadDir :: "MemFS \<Rightarrow> memDir \<Rightarrow> int \<Rightarrow> MemFS \<times> memDir \<times> dirEntry list \<times> error option" where
  "memDir_ReadDir fs dir n =
     (case (case md_readDirEntries dir of
              None \<Rightarrow>
                (case MemFS_ReadDir fs (md_name dir) of
                   (fs1, Inl err) \<Rightarrow> Inl (fs1, err)
                 | (fs1, Inr entries) \<Rightarrow> Inr (fs1, entries))
            | Some entries \<Rightarrow> Inr (fs, entries)) of
        Inl (fs1, err) \<Rightarrow> (fs1, dir, [], Some err)
      | Inr (fs1, readDirEntries) \<Rightarrow>
          (if length readDirEntries = 0 then
             (if n < 0 then (fs1, MemDir (md_name dir) (Some readDirEntries), readDirEntries, None)
              else (fs1, MemDir (md_name dir) (Some readDirEntries), readDirEntries, Some EOF))
           else
             (let size = (if n < 0 \<or> n > int (length readDirEntries)
                          then length readDirEntries else nat n)
              in (fs1, MemDir (md_name dir) (Some (drop size readDirEntries)),
                  take size readDirEntries, None))))"

text \<open>\<open>SetBytes\<close>: create, write once, close. The errors are dropped, as in the source.\<close>

definition MemFS_SetBytes :: "MemFS \<Rightarrow> string \<Rightarrow> byte list \<Rightarrow> MemFS" where
  "MemFS_SetBytes fs name b =
     (case MemFS_Create fs name of
        (fs1, wc) \<Rightarrow> (case writeCloser_Write wc b of (wc1, n) \<Rightarrow> fst (writeCloser_Close fs1 wc1)))"

text \<open>The zero value \<open>MemFS{}\<close>: no root yet, nothing allocated.\<close>

definition MemFS_zero :: MemFS where
  "MemFS_zero = \<lparr>root = None, heap = []\<rparr>"

subsection \<open>The conformance battery\<close>

text \<open>
  The loop of \<open>RunFileSystemTest\<close> that pages through a directory handle with a page size
  other than \<open>-1\<close>: call \<open>ReadDir(n)\<close>, append the entries, stop at \<open>io.EOF\<close>, fail on
  any other error. The fuel counts the calls; \<open>None\<close> is a loop that has not stopped.
\<close>

fun readDirPages :: "nat \<Rightarrow> MemFS \<Rightarrow> memDir \<Rightarrow> int \<Rightarrow> (error + dirEntry list) option" where
  "readDirPages 0 fs dir n = None"
| "readDirPages (Suc k) fs dir n =
     (case memDir_ReadDir fs dir n of
        (fs1, dir1, entries, err) \<Rightarrow>
          (case err of
             Some e \<Rightarrow> (if e = EOF then Some (Inr entries) else Some (Inl e))
           | None \<Rightarrow>
               (case readDirPages k fs1 dir1 n of
                  None \<Rightarrow> None
                | Some (Inl e) \<Rightarrow> Some (Inl e)
                | Some (Inr got) \<Rightarrow> Some (Inr (entries @ got)))))"

text \<open>The files the battery creates for its directory scenarios, after \<open>file1\<close>.\<close>

definition test_files :: "string list" where
  "test_files =
     [''dir1/file1A'', ''dir1/file1B'', ''dir2/file2A'', ''dir2/file2B'',
      ''dir2/dir3/file3A'', ''dir2/dir3/file3B'', ''dir4/dir5/file'']"

definition test_fs :: MemFS where
  "test_fs =
     foldl (\<lambda>fs name. MemFS_SetBytes fs name [])
       (MemFS_SetBytes MemFS_zero ''file1'' [11, 12, 13]) test_files"

subsection \<open>Well-formed stores and runs\<close>

text \<open>
  The shape every store built by the operations has: the pointers of every cell (its
  children, its parent) and the root point at allocated cells, the parent of a cell's
  child is that cell, and the children of a cell have distinct names.
\<close>

definition wf_heap :: "dirNode list \<Rightarrow> bool" where
  "wf_heap h =
     list_all (\<lambda>a.
        list_all (\<lambda>c. c < length h \<and> Parent (h ! c) = Some a) (Children (h ! a)) \<and>
        (case Parent (h ! a) of None \<Rightarrow> True | Some p \<Rightarrow> p < length h) \<and>
        distinct (map (\<lambda>c. Name (h ! c)) (Children (h ! a)))) [0..<length h]"

definition wf_fs :: "MemFS \<Rightarrow> bool" where
  "wf_fs fs = ((case root fs of None \<Rightarrow> True | Some r \<Rightarrow> r < length (heap fs)) \<and> wf_heap (heap fs))"

text \<open>
  What a later store keeps of an earlier one: every cell is still there under its name
  and parent, with the children it had, and a cell with content still has content.
\<close>

definition heap_extends :: "dirNode list \<Rightarrow> dirNode list \<Rightarrow> bool" where
  "heap_extends h h' =
     (length h \<le> length h' \<and>
      (\<forall>a<length h. Name (h' ! a) = Name (h ! a) \<and> Parent (h' ! a) = Parent (h ! a) \<and>
         set (Children (h ! a)) \<subseteq> set (Children (h' ! a)) \<and>
         (B (h ! a) \<noteq> None \<longrightarrow> B (h' ! a) \<noteq> None)))"

text \<open>
  One step of a run: the state after any operation of the facade, after \<open>ReadDir(n)\<close> on
  any directory handle, or after the \<open>Close\<close> of any write handle. (\<open>Write\<close> and
  \<open>memFile.Read\<close> have no state of the file system to change.)
\<close>

inductive step :: "MemFS \<Rightarrow> MemFS \<Rightarrow> bool" where
  Create: "step fs (fst (MemFS_Create fs name))"
| Append: "step fs (fst (MemFS_Append fs name))"
| Open: "step fs (fst (MemFS_Open fs name))"
| ReadDir: "step fs (fst (MemFS_ReadDir fs name))"
| ListFiles: "MemFS_ListFiles fs name = Some res \<Longrightarrow> step fs (fst res)"
| HandleReadDir: "step fs (fst (memDir_ReadDir fs dir n))"
| Close: "step fs (fst (writeCloser_Close fs wc))"

text \<open>A path none of whose segments is \<open>.\<close> or \<open>..\<close>.\<close>

definition plain :: "string list \<Rightarrow> bool" where
  "plain path = list_all (\<lambda>seg. seg \<noteq> ''.'' \<and> seg \<noteq> ''..'') path"

section \<open>Basic facts\<close>

declare ReadAll.simps [simp del]

text \<open>A full read of a file handle returns the handle's bytes and no error.\<close>

lemma ReadAll_MemFile: "ReadAll (MemFile name bs) = (bs, None)"
proof (induction "length bs" arbitrary: bs rule: less_induct)
  case less
  show ?case
  proof (cases "bs = []")
    case True
    then show ?thesis by (subst ReadAll.simps) (simp add: memFile_Read_def)
  next
    case False
    then have "length (drop 512 bs) < length bs" by simp
    from less [OF this] False show ?thesis
      by (subst ReadAll.simps) (simp add: memFile_Read_def)
  qed
qed

lemma nameToPath_nonempty: "nameToPath name \<noteq> []"
  by (induction name) (auto split: list.splits)

lemma init_root: "root (MemFS_init fs) \<noteq> None"
  by (cases "root fs") (simp_all add: MemFS_init_def)

lemma init_idem: "MemFS_init (MemFS_init fs) = MemFS_init fs"
  by (cases "root fs") (simp_all add: MemFS_init_def)

lemma Create_state: "fst (MemFS_Create fs p) = MemFS_init fs"
  by (simp add: MemFS_Create_def)

lemma Append_state: "fst (MemFS_Append fs p) = MemFS_init fs"
  by (simp add: MemFS_Append_def MemFS_Create_def Let_def init_idem split: option.splits sum.splits)

lemma Open_init: "MemFS_Open (MemFS_init fs) q = MemFS_Open fs q"
  by (simp add: MemFS_Open_def init_idem)

lemma ReadDir_init: "MemFS_ReadDir (MemFS_init fs) q = MemFS_ReadDir fs q"
  by (simp add: MemFS_ReadDir_def init_idem)

lemma ListFiles_init: "MemFS_ListFiles (MemFS_init fs) q = MemFS_ListFiles fs q"
  by (simp add: MemFS_ListFiles_def init_idem)

lemma memDir_ReadDir_init:
  "snd (memDir_ReadDir (MemFS_init fs) d n) = snd (memDir_ReadDir fs d n)"
  by (cases "md_readDirEntries d") (simp_all add: memDir_ReadDir_def ReadDir_init Let_def)

text \<open>The battery's file system, computed once.\<close>

lemma test_fs_value:
  "test_fs =
     \<lparr>root = Some 0,
      heap =
        [\<lparr>Name = [], Parent = None, Children = [2, 5, 11, 1], B = None\<rparr>,
         \<lparr>Name = ''file1'', Parent = Some 0, Children = [], B = Some [11, 12, 13]\<rparr>,
         \<lparr>Name = ''dir1'', Parent = Some 0, Children = [3, 4], B = None\<rparr>,
         \<lparr>Name = ''file1A'', Parent = Some 2, Children = [], B = Some []\<rparr>,
         \<lparr>Name = ''file1B'', Parent = Some 2, Children = [], B = Some []\<rparr>,
         \<lparr>Name = ''dir2'', Parent = Some 0, Children = [8, 6, 7], B = None\<rparr>,
         \<lparr>Name = ''file2A'', Parent = Some 5, Children = [], B = Some []\<rparr>,
         \<lparr>Name = ''file2B'', Parent = Some 5, Children = [], B = Some []\<rparr>,
         \<lparr>Name = ''dir3'', Parent = Some 5, Children = [9, 10], B = None\<rparr>,
         \<lparr>Name = ''file3A'', Parent = Some 8, Children = [], B = Some []\<rparr>,
         \<lparr>Name = ''file3B'', Parent = Some 8, Children = [], B = Some []\<rparr>,
         \<lparr>Name = ''dir4'', Parent = Some 0, Children = [12], B = None\<rparr>,
         \<lparr>Name = ''dir5'', Parent = Some 11, Children = [13], B = None\<rparr>,
         \<lparr>Name = ''file'', Parent = Some 12, Children = [], B = Some []\<rparr>]\<rparr>"
  by code_simp

section \<open>Commit on close\<close>

text \<open>
  Claim C1. Bytes written to a write handle are invisible to every read until the handle
  is closed. \<open>Create\<close> and \<open>Append\<close> return the state they were given, initialised
  (\<open>MemFS_init\<close> allocates the root when there is none), and every read gives the same
  answer on that state as on the one before: \<open>Open\<close>, \<open>ReadDir\<close>, \<open>ListFiles\<close> and a
  directory handle's \<open>ReadDir(n)\<close>. \<open>writeCloser_Write\<close> has no access to the file system
  at all: it takes and returns the handle only, and \<open>memFile_Read\<close> reads the handle's
  own copy. So after \<open>Create(p)\<close> and \<open>Write(b)\<close>, \<open>Open(p)\<close> answers what it answered
  before: \<open>ErrNotFound\<close> for a path never written, the old content otherwise.
\<close>

theorem write_invisible_until_close:
  "MemFS_Open (fst (MemFS_Create fs p)) q = MemFS_Open fs q \<and>
   MemFS_ReadDir (fst (MemFS_Create fs p)) q = MemFS_ReadDir fs q \<and>
   MemFS_ListFiles (fst (MemFS_Create fs p)) q = MemFS_ListFiles fs q \<and>
   snd (memDir_ReadDir (fst (MemFS_Create fs p)) d n) = snd (memDir_ReadDir fs d n) \<and>
   MemFS_Open (fst (MemFS_Append fs p)) q = MemFS_Open fs q \<and>
   MemFS_ReadDir (fst (MemFS_Append fs p)) q = MemFS_ReadDir fs q \<and>
   MemFS_ListFiles (fst (MemFS_Append fs p)) q = MemFS_ListFiles fs q \<and>
   snd (memDir_ReadDir (fst (MemFS_Append fs p)) d n) = snd (memDir_ReadDir fs d n)"
  by (simp only: Create_state Append_state Open_init ReadDir_init ListFiles_init
      memDir_ReadDir_init simp_thms)

text \<open>
  Two instances: with a write handle open on it and bytes written, a path never written
  is still not found, and a path that holds \<open>[11, 12, 13]\<close> still reads so.
\<close>

lemma open_before_close_examples:
  "(case MemFS_Create MemFS_zero ''file1'' of
      (fs1, wc) \<Rightarrow>
        (case writeCloser_Write wc [11, 12, 13] of
           (wc1, n) \<Rightarrow> n = 3 \<and> snd (MemFS_Open fs1 ''file1'') = Inl ErrNotFound)) \<and>
   (case MemFS_Create test_fs ''file1'' of
      (fs1, wc) \<Rightarrow>
        (case writeCloser_Write wc [12, 13, 14] of
           (wc1, n) \<Rightarrow>
             snd (MemFS_Open fs1 ''file1'') = Inr (FileHandle (MemFile ''file1'' [11, 12, 13]))))"
  by code_simp

section \<open>Reading directories\<close>

lemma test_fs_init: "MemFS_init test_fs = test_fs"
  by (simp add: test_fs_value MemFS_init_def)

text \<open>
  Claim C4. When \<open>d\<close> resolves to a directory node, \<open>ReadDir(d)\<close> succeeds with a list
  that is sorted by name and holds exactly one entry per child of that node (as a
  multiset: the children's names, each with the flag \<open>IsDirectory\<close> of the child), so
  nothing of a grandchild. A directory whose only child is a subdirectory is listed with
  that one entry.
\<close>

theorem ReadDir_lists_children:
  assumes "root (MemFS_init fs) = Some r"
    and "dirNode_Get (heap (MemFS_init fs)) r (nameToPath d) = Inr (Some node)"
    and "IsDirectory (heap (MemFS_init fs) ! node)"
  shows "\<exists>es. MemFS_ReadDir fs d = (MemFS_init fs, Inr es) \<and>
           sorted (map de_name es) \<and>
           mset es =
             mset (map (\<lambda>c. DirEntry (Name (heap (MemFS_init fs) ! c))
                               (IsDirectory (heap (MemFS_init fs) ! c)))
                     (Children (heap (MemFS_init fs) ! node)))"
  using assms by (simp add: MemFS_ReadDir_def Let_def)

theorem ReadDir_lists_children_witness:
  "root (MemFS_init test_fs) = Some 0 \<and>
   dirNode_Get (heap (MemFS_init test_fs)) 0 (nameToPath ''dir4'') = Inr (Some 11) \<and>
   IsDirectory (heap (MemFS_init test_fs) ! 11) \<and>
   (\<exists>es. MemFS_ReadDir test_fs ''dir4'' = (test_fs, Inr es) \<and>
      sorted (map de_name es) \<and> mset es = mset [DirEntry ''dir5'' True])"
proof -
  have h1: "root (MemFS_init test_fs) = Some 0"
    by (simp add: test_fs_init) (simp add: test_fs_value)
  have h2: "dirNode_Get (heap (MemFS_init test_fs)) 0 (nameToPath ''dir4'') = Inr (Some 11)"
    by (simp add: test_fs_init) (simp add: test_fs_value dirNode_Get_def Get_next_def dirNodeSlice_Get_def)
  have h3: "IsDirectory (heap (MemFS_init test_fs) ! 11)"
    by (simp add: test_fs_init) (simp add: test_fs_value IsDirectory_def)
  have kids: "map (\<lambda>c. DirEntry (Name (heap (MemFS_init test_fs) ! c))
                               (IsDirectory (heap (MemFS_init test_fs) ! c)))
                (Children (heap (MemFS_init test_fs) ! 11)) = [DirEntry ''dir5'' True]"
    by (simp add: test_fs_init) (simp add: test_fs_value IsDirectory_def)
  from ReadDir_lists_children [OF h1 h2 h3] show ?thesis
    unfolding kids using h1 h2 h3 by (simp add: test_fs_init)
qed

text \<open>
  Claim C5, as stated, fails: a path that names a file gets \<open>ErrNotFound\<close> from
  \<open>ReadDir\<close> and from \<open>ListFiles\<close>, the very error an absent path gets. In the battery's
  file system \<open>file1\<close> is a file and \<open>non-existent-dir\<close> is absent.
\<close>

theorem file_path_error_counterexample:
  "MemFS_Open test_fs ''file1'' = (test_fs, Inr (FileHandle (MemFile ''file1'' [11, 12, 13]))) \<and>
   MemFS_ReadDir test_fs ''file1'' = (test_fs, Inl ErrNotFound) \<and>
   MemFS_ReadDir test_fs ''non-existent-dir'' = (test_fs, Inl ErrNotFound) \<and>
   MemFS_ListFiles test_fs ''file1'' = Some (test_fs, Inl ErrNotFound)"
  by code_simp

text \<open>
  Claim C5, amended. When \<open>p\<close> resolves to a file node, \<open>ReadDir(p)\<close> and
  \<open>ListFiles(p)\<close> fail with \<open>ErrNotFound\<close>, \<open>Open(p)\<close> returns a file handle, and
  \<open>ReadDir(n)\<close> on that handle fails with the error
  \<open>cannot ReadDir '<p>'. Path is a file\<close> for every \<open>n\<close>.
\<close>

theorem file_path_errors:
  assumes "root (MemFS_init fs) = Some r"
    and "dirNode_Get (heap (MemFS_init fs)) r (nameToPath p) = Inr (Some node)"
    and "\<not> IsDirectory (heap (MemFS_init fs) ! node)"
  shows "MemFS_ReadDir fs p = (MemFS_init fs, Inl ErrNotFound) \<and>
         MemFS_ListFiles fs p = Some (MemFS_init fs, Inl ErrNotFound) \<and>
         (\<exists>f. MemFS_Open fs p = (MemFS_init fs, Inr (FileHandle f)) \<and>
              memFile_ReadDir f n =
                ([], Some (Errorf (''cannot ReadDir '' @ [CHR 0x27] @ p @ [CHR 0x27] @ ''. Path is a file''))))"
  using assms
  by (simp add: MemFS_ReadDir_def MemFS_ListFiles_def MemFS_Open_def memFile_ReadDir_def Let_def)

theorem file_path_errors_witness:
  "root (MemFS_init test_fs) = Some 0 \<and>
   dirNode_Get (heap (MemFS_init test_fs)) 0 (nameToPath ''dir1/file1A'') = Inr (Some 3) \<and>
   \<not> IsDirectory (heap (MemFS_init test_fs) ! 3) \<and>
   MemFS_ReadDir test_fs ''dir1/file1A'' = (test_fs, Inl ErrNotFound) \<and>
   MemFS_ListFiles test_fs ''dir1/file1A'' = Some (test_fs, Inl ErrNotFound) \<and>
   (\<exists>f. MemFS_Open test_fs ''dir1/file1A'' = (test_fs, Inr (FileHandle f)) \<and>
        memFile_ReadDir f (- 1) =
          ([], Some (Errorf (''cannot ReadDir '' @ [CHR 0x27] @ ''dir1/file1A'' @ [CHR 0x27] @ ''. Path is a file''))))"
proof -
  have h1: "root (MemFS_init test_fs) = Some 0"
    by (simp add: test_fs_init) (simp add: test_fs_value)
  have h2: "dirNode_Get (heap (MemFS_init test_fs)) 0 (nameToPath ''dir1/file1A'') = Inr (Some 3)"
    by (simp add: test_fs_init) (simp add: test_fs_value dirNode_Get_def Get_next_def dirNodeSlice_Get_def)
  have h3: "\<not> IsDirectory (heap (MemFS_init test_fs) ! 3)"
    by (simp add: test_fs_init) (simp add: test_fs_value IsDirectory_def)
  from file_path_errors [OF h1 h2 h3, of "- 1"] show ?thesis
    using h1 h2 h3 by (simp add: test_fs_init)
qed

section \<open>Paging through a directory handle\<close>

lemma pages_loaded:
  "1 \<le> n \<Longrightarrow> length es < k \<Longrightarrow> readDirPages k fs (MemDir nm (Some es)) n = Some (Inr es)"
proof (induction k arbitrary: es)
  case 0
  then show ?case by simp
next
  case (Suc k)
  show ?case
  proof (cases "es = []")
    case True
    with Suc.prems show ?thesis by (simp add: memDir_ReadDir_def)
  next
    case False
    define size where "size = (if n < 0 \<or> n > int (length es) then length es else nat n)"
    have pos: "0 < size" using Suc.prems(1) False by (simp add: size_def)
    have step: "memDir_ReadDir fs (MemDir nm (Some es)) n =
        (fs, MemDir nm (Some (drop size es)), take size es, None)"
      using False by (simp add: memDir_ReadDir_def size_def Let_def)
    have "length (drop size es) < k"
      using Suc.prems(2) pos False by (cases es) auto
    from Suc.IH [OF Suc.prems(1) this]
    show ?thesis by (simp add: step)
  qed
qed

lemma Open_dir_ReadDir:
  assumes "MemFS_Open fs name = (fs1, Inr (DirHandle dh))"
  shows "fs1 = MemFS_init fs \<and> dh = MemDir name None \<and>
         (\<exists>es. MemFS_ReadDir fs name = (fs1, Inr es))"
  using assms
  by (auto simp add: MemFS_Open_def MemFS_ReadDir_def Let_def
      split: option.splits sum.splits if_splits)

text \<open>
  Claim C7. Let \<open>Open(name)\<close> return the directory handle \<open>dh\<close>. Then there is a list
  \<open>es\<close> such that one call \<open>ReadDir(-1)\<close> on the handle returns \<open>es\<close> with no error; for
  every page size \<open>n \<ge> 1\<close> the paging loop stops (any fuel above \<open>length es\<close> is enough)
  and has collected exactly \<open>es\<close>, in the same order; and on the exhausted handle
  \<open>ReadDir(n)\<close> returns no entries together with \<open>io.EOF\<close>.
\<close>

theorem pagination_equivalence:
  assumes "MemFS_Open fs name = (fs1, Inr (DirHandle dh))" and "1 \<le> n"
  shows "\<exists>es. memDir_ReadDir fs1 dh (- 1) = (fs1, MemDir name (Some []), es, None) \<and>
           (\<forall>k. length es < k \<longrightarrow> readDirPages k fs1 dh n = Some (Inr es)) \<and>
           memDir_ReadDir fs1 (MemDir name (Some [])) n =
             (fs1, MemDir name (Some []), [], Some EOF)"
proof -
  from Open_dir_ReadDir [OF assms(1)] obtain es where
    fs1: "fs1 = MemFS_init fs" and dh: "dh = MemDir name None"
    and rd: "MemFS_ReadDir fs name = (fs1, Inr es)"
    by blast
  have rd1: "MemFS_ReadDir fs1 name = (fs1, Inr es)"
    using rd by (simp add: fs1 ReadDir_init)
  have one: "memDir_ReadDir fs1 dh (- 1) = (fs1, MemDir name (Some []), es, None)"
    by (simp add: memDir_ReadDir_def dh rd1 Let_def)
  have pages: "readDirPages k fs1 dh n = Some (Inr es)" if "length es < k" for k
  proof -
    from that obtain k' where k: "k = Suc k'" by (cases k) auto
    have "memDir_ReadDir fs1 dh n = memDir_ReadDir fs1 (MemDir name (Some es)) n"
      by (simp add: memDir_ReadDir_def dh rd1)
    then have "readDirPages k fs1 dh n = readDirPages k fs1 (MemDir name (Some es)) n"
      by (simp add: k)
    with pages_loaded [OF assms(2) that] show ?thesis by simp
  qed
  have last: "memDir_ReadDir fs1 (MemDir name (Some [])) n =
      (fs1, MemDir name (Some []), [], Some EOF)"
    using assms(2) by (simp add: memDir_ReadDir_def)
  from one pages last show ?thesis by blast
qed

lemma open_dir2: "MemFS_Open test_fs ''dir2'' = (test_fs, Inr (DirHandle (MemDir ''dir2'' None)))"
  by code_simp

lemma readdir_dir2:
  "MemFS_ReadDir test_fs ''dir2'' =
     (test_fs, Inr [DirEntry ''dir3'' True, DirEntry ''file2A'' False, DirEntry ''file2B'' False])"
  by code_simp

theorem pagination_equivalence_witness:
  "MemFS_Open test_fs ''dir2'' = (test_fs, Inr (DirHandle (MemDir ''dir2'' None))) \<and>
   (1::int) \<le> 2 \<and>
   memDir_ReadDir test_fs (MemDir ''dir2'' None) (- 1) =
     (test_fs, MemDir ''dir2'' (Some []),
      [DirEntry ''dir3'' True, DirEntry ''file2A'' False, DirEntry ''file2B'' False], None) \<and>
   readDirPages 4 test_fs (MemDir ''dir2'' None) 2 =
     Some (Inr [DirEntry ''dir3'' True, DirEntry ''file2A'' False, DirEntry ''file2B'' False])"
proof -
  have h: "MemFS_Open test_fs ''dir2'' = (test_fs, Inr (DirHandle (MemDir ''dir2'' None)))"
    by (rule open_dir2)
  have one: "memDir_ReadDir test_fs (MemDir ''dir2'' None) (- 1) =
     (test_fs, MemDir ''dir2'' (Some []),
      [DirEntry ''dir3'' True, DirEntry ''file2A'' False, DirEntry ''file2B'' False], None)"
    by (simp add: memDir_ReadDir_def readdir_dir2)
  from pagination_equivalence [OF h, of 2] one show ?thesis
    by (auto simp add: h)
qed

section \<open>Well-formed stores\<close>

lemma wf_heap_iff:
  "wf_heap h \<longleftrightarrow>
     (\<forall>a<length h. (\<forall>c\<in>set (Children (h ! a)). c < length h \<and> Parent (h ! c) = Some a) \<and>
        (\<forall>p. Parent (h ! a) = Some p \<longrightarrow> p < length h) \<and>
        distinct (map (\<lambda>c. Name (h ! c)) (Children (h ! a))))"
proof -
  have "(case x of None \<Rightarrow> True | Some p \<Rightarrow> p < n) = (\<forall>p. x = Some p \<longrightarrow> p < n)"
    for x :: "nat option" and n
    by (cases x) simp_all
  then have inner: "(list_all (\<lambda>c. c < length h \<and> Parent (h ! c) = Some a) (Children (h ! a)) \<and>
        (case Parent (h ! a) of None \<Rightarrow> True | Some p \<Rightarrow> p < length h) \<and>
        distinct (map (\<lambda>c. Name (h ! c)) (Children (h ! a)))) =
      ((\<forall>c\<in>set (Children (h ! a)). c < length h \<and> Parent (h ! c) = Some a) \<and>
        (\<forall>p. Parent (h ! a) = Some p \<longrightarrow> p < length h) \<and>
        distinct (map (\<lambda>c. Name (h ! c)) (Children (h ! a))))" for a
    by (simp only: list_all_iff)
  have upt: "(\<forall>a\<in>set [0..<length h]. P a) = (\<forall>a<length h. P a)" for P
    by auto
  show ?thesis
    unfolding wf_heap_def inner by (simp only: list_all_iff upt)
qed

lemma wf_heap_child:
  "wf_heap h \<Longrightarrow> a < length h \<Longrightarrow> c \<in> set (Children (h ! a)) \<Longrightarrow> c < length h"
  unfolding wf_heap_iff by blast

lemma wf_heap_child_parent:
  "wf_heap h \<Longrightarrow> a < length h \<Longrightarrow> c \<in> set (Children (h ! a)) \<Longrightarrow> Parent (h ! c) = Some a"
  unfolding wf_heap_iff by blast

lemma wf_heap_parent:
  "wf_heap h \<Longrightarrow> a < length h \<Longrightarrow> Parent (h ! a) = Some p \<Longrightarrow> p < length h"
  unfolding wf_heap_iff by blast

lemma wf_heap_distinct:
  "wf_heap h \<Longrightarrow> a < length h \<Longrightarrow> distinct (map (\<lambda>c. Name (h ! c)) (Children (h ! a)))"
  unfolding wf_heap_iff by blast

lemma wf_heapI:
  assumes "\<And>a c. a < length h \<Longrightarrow> c \<in> set (Children (h ! a)) \<Longrightarrow> c < length h"
    and "\<And>a c. a < length h \<Longrightarrow> c \<in> set (Children (h ! a)) \<Longrightarrow> Parent (h ! c) = Some a"
    and "\<And>a p. a < length h \<Longrightarrow> Parent (h ! a) = Some p \<Longrightarrow> p < length h"
    and "\<And>a. a < length h \<Longrightarrow> distinct (map (\<lambda>c. Name (h ! c)) (Children (h ! a)))"
  shows "wf_heap h"
  unfolding wf_heap_iff using assms by blast

lemma slice_Get_Some:
  "dirNodeSlice_Get h s nm = Some c \<Longrightarrow> c \<in> set s \<and> Name (h ! c) = nm"
  by (auto simp add: dirNodeSlice_Get_def find_Some_iff)

lemma slice_Get_None:
  "dirNodeSlice_Get h s nm = None \<longleftrightarrow> (\<forall>c\<in>set s. Name (h ! c) \<noteq> nm)"
  by (auto simp add: dirNodeSlice_Get_def find_None_iff)

lemma Get_next_valid:
  assumes "wf_heap h" and "n < length h" and "Get_next h n p = Some g"
  shows "g < length h"
proof (cases "p = ''.''")
  case True
  with assms show ?thesis by (simp add: Get_next_def)
next
  case False
  note nd = this
  show ?thesis
  proof (cases "p = ''..''")
    case True
    with assms(3) have "Parent (h ! n) = Some g" by (simp add: Get_next_def)
    from wf_heap_parent [OF assms(1,2) this] show ?thesis .
  next
    case False
    with nd assms(3) have "dirNodeSlice_Get h (Children (h ! n)) p = Some g"
      by (simp add: Get_next_def)
    from slice_Get_Some [OF this] have "g \<in> set (Children (h ! n))" by simp
    from wf_heap_child [OF assms(1,2) this] show ?thesis .
  qed
qed

lemma Get_valid:
  "wf_heap h \<Longrightarrow> n < length h \<Longrightarrow> Get h n p rest = Some g \<Longrightarrow> g < length h"
proof (induction rest arbitrary: n p)
  case Nil
  then show ?case by (auto dest: Get_next_valid)
next
  case (Cons q rest)
  from Cons.prems(3) obtain nx where
    nx: "Get_next h n p = Some nx" and rec: "Get h nx q rest = Some g"
    by (auto split: option.splits)
  from Get_next_valid [OF Cons.prems(1,2) nx] have "nx < length h" .
  from Cons.IH [OF Cons.prems(1) this rec] show ?case .
qed

lemma AddChild_result:
  assumes "AddChild h n nm b = (h', c)"
  shows "c = length h" and "length h' = Suc (length h)"
  using assms by (auto simp add: AddChild_def Let_def)

lemma AddChild_old:
  assumes "AddChild h n nm b = (h', c)" and "a < length h"
  shows "Name (h' ! a) = Name (h ! a) \<and> Parent (h' ! a) = Parent (h ! a) \<and> B (h' ! a) = B (h ! a)"
  using assms by (auto simp add: AddChild_def Let_def nth_append nth_list_update)

lemma AddChild_new:
  assumes "AddChild h n nm b = (h', c)" and "n < length h"
  shows "h' ! c = \<lparr>Name = nm, Parent = Some n, Children = [], B = b\<rparr>"
  using assms by (auto simp add: AddChild_def Let_def nth_append nth_list_update)

lemma AddChild_children:
  assumes "AddChild h n nm b = (h', c)" and "a < length h"
  shows "set (Children (h' ! a)) = (if a = n then insert (length h) (set (Children (h ! a))) else set (Children (h ! a)))"
  using assms by (auto simp add: AddChild_def Let_def nth_append nth_list_update)

lemma AddChild_other:
  assumes "AddChild h n nm b = (h', c)" and "a < length h" and "a \<noteq> n"
  shows "h' ! a = h ! a"
  using assms by (auto simp add: AddChild_def Let_def nth_append nth_list_update)

lemma AddChild_node_children:
  assumes "AddChild h n nm b = (h', c)" and "n < length h"
  shows "\<exists>f :: nat \<Rightarrow> string. Children (h' ! n) = sort_key f (Children (h ! n) @ [length h])"
  using assms
  apply (clarsimp simp add: AddChild_def Let_def nth_append nth_list_update)
  apply (rule exI)
  apply (rule refl)
  done

lemma AddChild_wf:
  assumes ac: "AddChild h n nm b = (h', c)" and wfh: "wf_heap h" and n: "n < length h"
    and fresh: "dirNodeSlice_Get h (Children (h ! n)) nm = None"
  shows "wf_heap h'"
proof (rule wf_heapI)
  have len: "length h' = Suc (length h)" using ac by (rule AddChild_result)
  have c: "c = length h" using ac by (rule AddChild_result)
  have new: "h' ! length h = \<lparr>Name = nm, Parent = Some n, Children = [], B = b\<rparr>"
    using AddChild_new [OF ac n] c by simp
  have nameold: "Name (h' ! x) = Name (h ! x)" if "x < length h" for x
    using AddChild_old [OF ac that] by simp
  have kids_set: "set (Children (h' ! a)) =
      (if a = n then insert (length h) (set (Children (h ! a))) else set (Children (h ! a)))"
    if "a < length h" for a
    using AddChild_children [OF ac that] .
  {
    fix a x assume a: "a < length h'" and x: "x \<in> set (Children (h' ! a))"
    show "x < length h'"
    proof (cases "a < length h")
      case True
      from x kids_set [OF True]
      have "x = length h \<or> x \<in> set (Children (h ! a))" by (auto split: if_splits)
      then show ?thesis
      proof
        assume "x = length h"
        with len show ?thesis by simp
      next
        assume "x \<in> set (Children (h ! a))"
        from wf_heap_child [OF wfh True this] len show ?thesis by simp
      qed
    next
      case False
      with a len have "a = length h" by simp
      with x new show ?thesis by simp
    qed
  }
  {
    fix a x assume a: "a < length h'" and x: "x \<in> set (Children (h' ! a))"
    show "Parent (h' ! x) = Some a"
    proof (cases "a < length h")
      case True
      from x kids_set [OF True]
      have "(a = n \<and> x = length h) \<or> x \<in> set (Children (h ! a))" by (auto split: if_splits)
      then show ?thesis
      proof
        assume "a = n \<and> x = length h"
        with new show ?thesis by simp
      next
        assume xin: "x \<in> set (Children (h ! a))"
        have xv: "x < length h" using wf_heap_child [OF wfh True xin] .
        from AddChild_old [OF ac xv] wf_heap_child_parent [OF wfh True xin] show ?thesis by simp
      qed
    next
      case False
      with a len have "a = length h" by simp
      with x new show ?thesis by simp
    qed
  }
  {
    fix a p assume a: "a < length h'" and p: "Parent (h' ! a) = Some p"
    show "p < length h'"
    proof (cases "a < length h")
      case True
      with p AddChild_old [OF ac True] have "Parent (h ! a) = Some p" by simp
      from wf_heap_parent [OF wfh True this] len show ?thesis by simp
    next
      case False
      with a len have "a = length h" by simp
      with p new n len show ?thesis by simp
    qed
  }
  {
    fix a assume a: "a < length h'"
    show "distinct (map (\<lambda>x. Name (h' ! x)) (Children (h' ! a)))"
    proof (cases "a < length h")
      case old: True
      have kids: "\<And>x. x \<in> set (Children (h ! a)) \<Longrightarrow> x < length h"
        using wf_heap_child [OF wfh old] .
      have dis: "distinct (map (\<lambda>x. Name (h ! x)) (Children (h ! a)))"
        using wf_heap_distinct [OF wfh old] .
      have m: "map (\<lambda>x. Name (h' ! x)) (Children (h ! a)) = map (\<lambda>x. Name (h ! x)) (Children (h ! a))"
        using kids nameold by (intro map_cong) auto
      show ?thesis
      proof (cases "a = n")
        case True
        from AddChild_node_children [OF ac n] obtain f :: "nat \<Rightarrow> string" where
          ch: "Children (h' ! n) = sort_key f (Children (h ! n) @ [length h])" ..
        have notin: "nm \<notin> set (map (\<lambda>x. Name (h ! x)) (Children (h ! n)))"
          using fresh by (auto simp add: slice_Get_None)
        have mn: "map (\<lambda>x. Name (h' ! x)) (Children (h ! n)) =
                  map (\<lambda>x. Name (h ! x)) (Children (h ! n))"
          using m True by simp
        have dn: "distinct (map (\<lambda>x. Name (h ! x)) (Children (h ! n)))"
          using dis True by simp
        have d1: "distinct (map (\<lambda>x. Name (h' ! x)) (Children (h ! n) @ [length h]))"
          unfolding map_append mn using dn notin new by simp
        have "mset (map (\<lambda>x. Name (h' ! x)) (Children (h' ! n))) =
              mset (map (\<lambda>x. Name (h' ! x)) (Children (h ! n) @ [length h]))"
          by (simp only: ch mset_map mset_sort)
        then have "distinct (map (\<lambda>x. Name (h' ! x)) (Children (h' ! n)))"
          using d1 by (metis distinct_count_atmost_1 set_mset_mset)
        with True show ?thesis by simp
      next
        case False
        have eq: "h' ! a = h ! a" using AddChild_other [OF ac old False] .
        from dis show ?thesis by (simp add: eq m)
      qed
    next
      case False
      with a len have "a = length h" by simp
      with new show ?thesis by simp
    qed
  }
qed

lemma heap_extends_refl: "heap_extends h h"
  by (simp add: heap_extends_def)

lemma heap_extends_trans:
  assumes a: "heap_extends h1 h2" and b: "heap_extends h2 h3"
  shows "heap_extends h1 h3"
  unfolding heap_extends_def
proof (intro conjI allI impI)
  show "length h1 \<le> length h3" using a b by (simp add: heap_extends_def)
next
  fix x assume x: "x < length h1"
  then have x2: "x < length h2" using a by (simp add: heap_extends_def)
  from a x have a': "Name (h2 ! x) = Name (h1 ! x)" "Parent (h2 ! x) = Parent (h1 ! x)"
    "set (Children (h1 ! x)) \<subseteq> set (Children (h2 ! x))"
    "B (h1 ! x) \<noteq> None \<longrightarrow> B (h2 ! x) \<noteq> None"
    unfolding heap_extends_def by blast+
  from b x2 have b': "Name (h3 ! x) = Name (h2 ! x)" "Parent (h3 ! x) = Parent (h2 ! x)"
    "set (Children (h2 ! x)) \<subseteq> set (Children (h3 ! x))"
    "B (h2 ! x) \<noteq> None \<longrightarrow> B (h3 ! x) \<noteq> None"
    unfolding heap_extends_def by blast+
  show "Name (h3 ! x) = Name (h1 ! x)" using a' b' by simp
  show "Parent (h3 ! x) = Parent (h1 ! x)" using a' b' by simp
  show "set (Children (h1 ! x)) \<subseteq> set (Children (h3 ! x))" using a' b' by blast
  assume "B (h1 ! x) \<noteq> None"
  with a' b' show "B (h3 ! x) \<noteq> None" by blast
qed

lemma AddChild_heap_extends:
  assumes ac: "AddChild h n nm b = (h', c)"
  shows "heap_extends h h'"
  unfolding heap_extends_def
proof (intro conjI allI impI)
  show "length h \<le> length h'" using AddChild_result(2) [OF ac] by simp
next
  fix a assume a: "a < length h"
  show "Name (h' ! a) = Name (h ! a)" using AddChild_old [OF ac a] by simp
  show "Parent (h' ! a) = Parent (h ! a)" using AddChild_old [OF ac a] by simp
  show "set (Children (h ! a)) \<subseteq> set (Children (h' ! a))"
    unfolding AddChild_children [OF ac a] by auto
  assume "B (h ! a) \<noteq> None"
  then show "B (h' ! a) \<noteq> None" using AddChild_old [OF ac a] by simp
qed

lemma AddDescendant_wf:
  "wf_heap h \<Longrightarrow> n < length h \<Longrightarrow> AddDescendant h n b p rest = (h', g) \<Longrightarrow>
     wf_heap h' \<and> g < length h' \<and> heap_extends h h'"
proof (induction rest arbitrary: h n p)
  case Nil
  show ?case
  proof (cases "dirNodeSlice_Get h (Children (h ! n)) p")
    case None
    with Nil.prems have ac: "AddChild h n p b = (h', g)" by simp
    from AddChild_wf [OF ac Nil.prems(1,2) None] AddChild_result [OF ac] AddChild_heap_extends [OF ac]
    show ?thesis by simp
  next
    case (Some c)
    with Nil.prems have eq: "h' = h" "g = c" by simp_all
    from slice_Get_Some [OF Some] have "c \<in> set (Children (h ! n))" by simp
    from wf_heap_child [OF Nil.prems(1,2) this] have "c < length h" .
    with eq Nil.prems(1) show ?thesis by (simp add: heap_extends_refl)
  qed
next
  case (Cons q rest)
  show ?case
  proof (cases "dirNodeSlice_Get h (Children (h ! n)) p")
    case None
    obtain h1 c where ac: "AddChild h n p None = (h1, c)" by (cases "AddChild h n p None")
    with None Cons.prems have rec: "AddDescendant h1 c b q rest = (h', g)" by simp
    have wf1: "wf_heap h1" using AddChild_wf [OF ac Cons.prems(1,2) None] .
    have c1: "c < length h1" using AddChild_result [OF ac] by simp
    from Cons.IH [OF wf1 c1 rec] AddChild_heap_extends [OF ac]
    show ?thesis by (blast intro: heap_extends_trans)
  next
    case (Some c)
    with Cons.prems have rec: "AddDescendant h c b q rest = (h', g)" by simp
    from slice_Get_Some [OF Some] have "c \<in> set (Children (h ! n))" by simp
    from wf_heap_child [OF Cons.prems(1,2) this] have "c < length h" .
    from Cons.IH [OF Cons.prems(1) this rec] show ?thesis .
  qed
qed

lemma B_update_fields:
  "Name (h[g := (h ! g)\<lparr>B := v\<rparr>] ! a) = Name (h ! a) \<and>
   Parent (h[g := (h ! g)\<lparr>B := v\<rparr>] ! a) = Parent (h ! a) \<and>
   Children (h[g := (h ! g)\<lparr>B := v\<rparr>] ! a) = Children (h ! a)"
proof (cases "a = g \<and> g < length h")
  case True
  then show ?thesis by simp
next
  case False
  then have "h[g := (h ! g)\<lparr>B := v\<rparr>] ! a = h ! a"
    by (cases "g < length h") (simp_all add: list_update_beyond)
  then show ?thesis by simp
qed

lemma wf_heap_B_update: "wf_heap h \<Longrightarrow> wf_heap (h[g := (h ! g)\<lparr>B := v\<rparr>])"
proof -
  have "wf_heap (h[g := (h ! g)\<lparr>B := v\<rparr>]) \<longleftrightarrow> wf_heap h"
    apply (subst wf_heap_iff)
    apply (subst wf_heap_iff [of h])
    apply (simp only: B_update_fields length_list_update)
    done
  then show "wf_heap h \<Longrightarrow> wf_heap (h[g := (h ! g)\<lparr>B := v\<rparr>])" by simp
qed

lemma heap_extends_B_update:
  assumes "B (h ! g) \<noteq> None \<longrightarrow> v \<noteq> None"
  shows "heap_extends h (h[g := (h ! g)\<lparr>B := v\<rparr>])"
  unfolding heap_extends_def
proof (intro conjI allI impI)
  show "length h \<le> length (h[g := (h ! g)\<lparr>B := v\<rparr>])" by simp
next
  fix a assume a: "a < length h"
  show "Name (h[g := (h ! g)\<lparr>B := v\<rparr>] ! a) = Name (h ! a)" by (simp only: B_update_fields)
  show "Parent (h[g := (h ! g)\<lparr>B := v\<rparr>] ! a) = Parent (h ! a)" by (simp only: B_update_fields)
  show "set (Children (h ! a)) \<subseteq> set (Children (h[g := (h ! g)\<lparr>B := v\<rparr>] ! a))"
    by (simp only: B_update_fields subset_refl)
  assume "B (h ! a) \<noteq> None"
  with assms a show "B (h[g := (h ! g)\<lparr>B := v\<rparr>] ! a) \<noteq> None"
    by (cases "a = g") simp_all
qed

lemma go_append_Some: "s \<noteq> None \<Longrightarrow> go_append s e \<noteq> None"
  by (auto simp add: go_append_def split: option.splits)

lemma heap_extends_append_update: "heap_extends h (h[g := (h ! g)\<lparr>B := go_append (B (h ! g)) e\<rparr>])"
  by (rule heap_extends_B_update) (simp add: go_append_Some)

lemma getBytes_Some: "getBytes buf \<noteq> None"
  by (simp add: getBytes_def split: option.splits)

lemma wf_heap_root_cell:
  assumes old: "wf_heap h"
  shows "wf_heap (h @ [\<lparr>Name = [], Parent = None, Children = [], B = None\<rparr>])"
proof (rule wf_heapI)
  let ?h = "h @ [\<lparr>Name = [], Parent = None, Children = [], B = None\<rparr>]"
  {
    fix a c assume a: "a < length ?h" and c: "c \<in> set (Children (?h ! a))"
    show "c < length ?h"
    proof (cases "a < length h")
      case True
      with c have "c \<in> set (Children (h ! a))" by (simp add: nth_append)
      from wf_heap_child [OF old True this] show ?thesis by simp
    next
      case False
      with a have "a = length h" by simp
      with c show ?thesis by simp
    qed
  }
  {
    fix a c assume a: "a < length ?h" and c: "c \<in> set (Children (?h ! a))"
    show "Parent (?h ! c) = Some a"
    proof (cases "a < length h")
      case True
      with c have cin: "c \<in> set (Children (h ! a))" by (simp add: nth_append)
      have cv: "c < length h" using wf_heap_child [OF old True cin] .
      from wf_heap_child_parent [OF old True cin] cv show ?thesis by (simp add: nth_append)
    next
      case False
      with a have "a = length h" by simp
      with c show ?thesis by simp
    qed
  }
  {
    fix a p assume a: "a < length ?h" and p: "Parent (?h ! a) = Some p"
    show "p < length ?h"
    proof (cases "a < length h")
      case True
      with p have "Parent (h ! a) = Some p" by (simp add: nth_append)
      from wf_heap_parent [OF old True this] show ?thesis by simp
    next
      case False
      with a have "a = length h" by simp
      with p show ?thesis by simp
    qed
  }
  {
    fix a assume a: "a < length ?h"
    show "distinct (map (\<lambda>c. Name (?h ! c)) (Children (?h ! a)))"
    proof (cases "a < length h")
      case True
      have kids: "\<And>x. x \<in> set (Children (h ! a)) \<Longrightarrow> x < length h"
        using wf_heap_child [OF old True] .
      have m: "map (\<lambda>c. Name (?h ! c)) (Children (h ! a)) =
               map (\<lambda>c. Name (h ! c)) (Children (h ! a))"
        using kids by (intro map_cong) (auto simp add: nth_append)
      have eq: "?h ! a = h ! a" using True by (simp add: nth_append)
      show ?thesis unfolding eq m using wf_heap_distinct [OF old True] .
    next
      case False
      with a have "a = length h" by simp
      then show ?thesis by simp
    qed
  }
qed

lemma init_wf: "wf_fs fs \<Longrightarrow> wf_fs (MemFS_init fs)"
proof (cases "root fs")
  case None
  assume "wf_fs fs"
  then have "wf_heap (heap fs)" by (simp add: wf_fs_def)
  from wf_heap_root_cell [OF this] None show ?thesis
    by (simp add: wf_fs_def MemFS_init_def)
next
  case (Some r)
  assume "wf_fs fs"
  with Some show ?thesis by (simp add: MemFS_init_def)
qed

lemma init_heap_extends: "heap_extends (heap fs) (heap (MemFS_init fs))"
  by (cases "root fs") (auto simp add: MemFS_init_def heap_extends_def nth_append)

lemma Close_wf:
  assumes "wf_fs fs"
  shows "wf_fs (fst (writeCloser_Close fs wc)) \<and> heap_extends (heap fs) (heap (fst (writeCloser_Close fs wc)))"
proof (cases "wc_closeFn wc")
  case None
  with assms show ?thesis by (simp add: writeCloser_Close_def heap_extends_refl)
next
  case (Some cl)
  show ?thesis
  proof (cases cl)
    case (updateNode got)
    with Some assms show ?thesis
      by (simp add: writeCloser_Close_def Let_def wf_fs_def wf_heap_B_update heap_extends_append_update
          split: option.splits)
  next
    case (addNode name)
    show ?thesis
    proof (cases "root fs")
      case None
      with Some addNode assms show ?thesis
        by (simp add: writeCloser_Close_def heap_extends_refl)
    next
      case (Some r)
      note r = this
      have rv: "r < length (heap fs)" and wh: "wf_heap (heap fs)"
        using assms r by (simp_all add: wf_fs_def)
      obtain p rest where path: "nameToPath name = p # rest"
        using nameToPath_nonempty [of name] by (cases "nameToPath name") auto
      obtain h g where goa: "GetOrAdd (heap fs) r (getBytes (wc_w wc)) (p # rest) = Inr (h, g)"
        by (cases "Get (heap fs) r p rest"; cases "AddDescendant (heap fs) r (getBytes (wc_w wc)) p rest")
          (auto simp add: GetOrAdd_def)
      have mid: "wf_heap h \<and> g < length h \<and> heap_extends (heap fs) h"
      proof (cases "Get (heap fs) r p rest")
        case None
        with goa have "AddDescendant (heap fs) r (getBytes (wc_w wc)) p rest = (h, g)"
          by (simp add: GetOrAdd_def)
        from AddDescendant_wf [OF wh rv this] show ?thesis .
      next
        case (Some got)
        with goa have "h = heap fs" "g = got" by (simp_all add: GetOrAdd_def)
        with Get_valid [OF wh rv Some] wh show ?thesis by (simp add: heap_extends_refl)
      qed
      have rl: "r < length h" using mid rv by (simp add: heap_extends_def)
      from mid have "wf_heap (h[g := (h ! g)\<lparr>B := getBytes (wc_w wc)\<rparr>]) \<and>
          heap_extends (heap fs) (h[g := (h ! g)\<lparr>B := getBytes (wc_w wc)\<rparr>])"
        using heap_extends_B_update [of h g "getBytes (wc_w wc)"] getBytes_Some [of "wc_w wc"]
        by (blast intro: wf_heap_B_update heap_extends_trans)
      with \<open>wc_closeFn wc = Some cl\<close> addNode r path goa rl show ?thesis
        by (simp add: writeCloser_Close_def Let_def wf_fs_def)
    qed
  qed
qed

lemma Open_state: "fst (MemFS_Open fs q) = MemFS_init fs"
  by (simp add: MemFS_Open_def Let_def split: option.splits sum.splits)

lemma ReadDir_state: "fst (MemFS_ReadDir fs q) = MemFS_init fs"
  by (simp add: MemFS_ReadDir_def Let_def split: option.splits sum.splits)

lemma ListFiles_state: "MemFS_ListFiles fs q = Some res \<Longrightarrow> fst res = MemFS_init fs"
  by (auto simp add: MemFS_ListFiles_def Let_def split: option.splits sum.splits if_splits)

lemma memDir_ReadDir_state:
  "fst (memDir_ReadDir fs dir n) = fs \<or> fst (memDir_ReadDir fs dir n) = MemFS_init fs"
proof (cases "md_readDirEntries dir")
  case None
  obtain fs1 res where rd: "MemFS_ReadDir fs (md_name dir) = (fs1, res)"
    by (cases "MemFS_ReadDir fs (md_name dir)")
  with ReadDir_state [of fs "md_name dir"] have "fs1 = MemFS_init fs" by simp
  with None rd show ?thesis
    by (cases res) (simp_all add: memDir_ReadDir_def Let_def)
next
  case (Some es)
  then show ?thesis by (simp add: memDir_ReadDir_def Let_def)
qed

lemma step_wf:
  assumes "step fs fs'" and "wf_fs fs"
  shows "wf_fs fs' \<and> heap_extends (heap fs) (heap fs')"
  using assms
proof (induction rule: step.induct)
  case (Create fs name)
  then show ?case by (simp add: Create_state init_wf init_heap_extends)
next
  case (Append fs name)
  then show ?case by (simp add: Append_state init_wf init_heap_extends)
next
  case (Open fs name)
  then show ?case by (simp add: Open_state init_wf init_heap_extends)
next
  case (ReadDir fs name)
  then show ?case by (simp add: ReadDir_state init_wf init_heap_extends)
next
  case (ListFiles fs name res)
  then show ?case by (simp add: ListFiles_state init_wf init_heap_extends)
next
  case (HandleReadDir fs dir n)
  with memDir_ReadDir_state [of fs dir n] show ?case
    by (auto simp add: init_wf init_heap_extends heap_extends_refl)
next
  case (Close fs wc)
  then show ?case by (simp add: Close_wf)
qed

lemma steps_wf:
  assumes "rtranclp step fs fs'" and "wf_fs fs"
  shows "wf_fs fs' \<and> heap_extends (heap fs) (heap fs')"
  using assms
proof (induction rule: rtranclp_induct)
  case base
  then show ?case by (simp add: heap_extends_refl)
next
  case (step y z)
  with step_wf [of y z] show ?case by (blast intro: heap_extends_trans)
qed

lemma wf_zero: "wf_fs MemFS_zero"
  by (simp add: wf_fs_def wf_heap_def MemFS_zero_def)

lemma Get_next_B_update: "Get_next (h[g := (h ! g)\<lparr>B := v\<rparr>]) n p = Get_next h n p"
  by (simp only: Get_next_def dirNodeSlice_Get_def B_update_fields)

lemma Get_B_update: "Get (h[g := (h ! g)\<lparr>B := v\<rparr>]) n p rest = Get h n p rest"
  by (induction rest arbitrary: n p) (simp_all add: Get_next_B_update split: option.splits)

lemma init_Some: "root fs = Some r \<Longrightarrow> MemFS_init fs = fs"
  by (simp add: MemFS_init_def)

lemma Close_update:
  "wc_closeFn wc = Some (updateNode got) \<Longrightarrow>
   fst (writeCloser_Close fs wc) =
     fs\<lparr>heap := (heap fs)[got := (heap fs ! got)\<lparr>B := go_append (B (heap fs ! got)) (getBytes (wc_w wc))\<rparr>]\<rparr>"
  by (simp add: writeCloser_Close_def Let_def)

lemma Close_add_found:
  "wc_closeFn wc = Some (addNode name) \<Longrightarrow> root fs = Some r \<Longrightarrow> nameToPath name = p # rest \<Longrightarrow>
   Get (heap fs) r p rest = Some got \<Longrightarrow>
   fst (writeCloser_Close fs wc) =
     fs\<lparr>heap := (heap fs)[got := (heap fs ! got)\<lparr>B := getBytes (wc_w wc)\<rparr>]\<rparr>"
  by (simp add: writeCloser_Close_def Let_def GetOrAdd_def)

lemma Open_file:
  "root fs = Some r \<Longrightarrow> nameToPath name = p # rest \<Longrightarrow> Get (heap fs) r p rest = Some g \<Longrightarrow>
   B (heap fs ! g) = Some c \<Longrightarrow> MemFS_Open fs name = (fs, Inr (FileHandle (MemFile name c)))"
  by (simp add: MemFS_Open_def init_Some dirNode_Get_def IsDirectory_def)

lemma getBytes_Write: "getBytes (Buffer_Write None b) = Some b"
  by (simp add: getBytes_def Buffer_Write_def)

lemma go_append_Some_Some: "go_append (Some c) (Some b) = Some (c @ b)"
  by (simp add: go_append_def)

lemma SetBytes_Close:
  "MemFS_SetBytes fs name b =
     fst (writeCloser_Close (fst (MemFS_Create fs name))
            (fst (writeCloser_Write (snd (MemFS_Create fs name)) b)))"
  by (simp add: MemFS_SetBytes_def split_beta)

lemma SetBytes_steps: "rtranclp step fs (MemFS_SetBytes fs name b)"
proof -
  have "step fs (fst (MemFS_Create fs name))" by (rule step.Create)
  moreover have "step (fst (MemFS_Create fs name)) (MemFS_SetBytes fs name b)"
    unfolding SetBytes_Close by (rule step.Close)
  ultimately show ?thesis by (rule converse_rtranclp_into_rtranclp [OF _ r_into_rtranclp])
qed

section \<open>What Get finds after GetOrAdd\<close>

lemma slice_Get_unique:
  "distinct (map (\<lambda>c. Name (h ! c)) s) \<Longrightarrow> y \<in> set s \<Longrightarrow> Name (h ! y) = nm \<Longrightarrow>
   dirNodeSlice_Get h s nm = Some y"
proof (induction s)
  case Nil
  then show ?case by simp
next
  case (Cons c s)
  show ?case
  proof (cases "Name (h ! c) = nm")
    case True
    have "y = c"
    proof (rule ccontr)
      assume "y \<noteq> c"
      with Cons.prems(2) have "y \<in> set s" by simp
      then have "Name (h ! y) \<in> set (map (\<lambda>c. Name (h ! c)) s)" by simp
      with Cons.prems(1,3) True show False by simp
    qed
    with True show ?thesis by (simp add: dirNodeSlice_Get_def)
  next
    case False
    with Cons.prems have "y \<in> set s" by auto
    from Cons.IH [OF _ this Cons.prems(3)] Cons.prems(1) False show ?thesis
      by (simp add: dirNodeSlice_Get_def)
  qed
qed

lemma heap_extends_name: "heap_extends h h' \<Longrightarrow> a < length h \<Longrightarrow> Name (h' ! a) = Name (h ! a)"
  unfolding heap_extends_def by blast

lemma heap_extends_parent: "heap_extends h h' \<Longrightarrow> a < length h \<Longrightarrow> Parent (h' ! a) = Parent (h ! a)"
  unfolding heap_extends_def by blast

lemma heap_extends_children:
  "heap_extends h h' \<Longrightarrow> a < length h \<Longrightarrow> c \<in> set (Children (h ! a)) \<Longrightarrow> c \<in> set (Children (h' ! a))"
  unfolding heap_extends_def by blast

lemma heap_extends_length: "heap_extends h h' \<Longrightarrow> a < length h \<Longrightarrow> a < length h'"
  unfolding heap_extends_def by simp

lemma Get_next_preserved:
  assumes wf: "wf_heap h" and wf': "wf_heap h'" and ex: "heap_extends h h'"
    and n: "n < length h" and g: "Get_next h n p = Some g"
  shows "Get_next h' n p = Some g"
proof (cases "p = ''.''")
  case True
  with g show ?thesis by (simp add: Get_next_def)
next
  case False
  note nd = this
  show ?thesis
  proof (cases "p = ''..''")
    case True
    with g heap_extends_parent [OF ex n] show ?thesis by (simp add: Get_next_def)
  next
    case False
    with nd g have sg: "dirNodeSlice_Get h (Children (h ! n)) p = Some g"
      by (simp add: Get_next_def)
    from slice_Get_Some [OF sg] have gin: "g \<in> set (Children (h ! n))" and nm: "Name (h ! g) = p"
      by simp_all
    have gv: "g < length h" using wf_heap_child [OF wf n gin] .
    have "dirNodeSlice_Get h' (Children (h' ! n)) p = Some g"
    proof (rule slice_Get_unique)
      show "distinct (map (\<lambda>c. Name (h' ! c)) (Children (h' ! n)))"
        using wf_heap_distinct [OF wf' heap_extends_length [OF ex n]] .
      show "g \<in> set (Children (h' ! n))" using heap_extends_children [OF ex n gin] .
      show "Name (h' ! g) = p" using heap_extends_name [OF ex gv] nm by simp
    qed
    with nd False show ?thesis by (simp add: Get_next_def)
  qed
qed

lemma Get_preserved:
  assumes wf: "wf_heap h" and wf': "wf_heap h'" and ex: "heap_extends h h'"
  shows "n < length h \<Longrightarrow> Get h n p rest = Some g \<Longrightarrow> Get h' n p rest = Some g"
proof (induction rest arbitrary: n p)
  case Nil
  then show ?case using Get_next_preserved [OF wf wf' ex] by simp
next
  case (Cons q rest)
  from Cons.prems(2) obtain nx where
    nx: "Get_next h n p = Some nx" and rec: "Get h nx q rest = Some g"
    by (auto split: option.splits)
  have nxv: "nx < length h" using Get_next_valid [OF wf Cons.prems(1) nx] .
  from Get_next_preserved [OF wf wf' ex Cons.prems(1) nx] Cons.IH [OF nxv rec]
  show ?case by simp
qed

lemma AddChild_found:
  assumes ac: "AddChild h n nm b = (h', c)" and wf: "wf_heap h" and n: "n < length h"
    and fresh: "dirNodeSlice_Get h (Children (h ! n)) nm = None"
  shows "dirNodeSlice_Get h' (Children (h' ! n)) nm = Some c"
proof (rule slice_Get_unique)
  have wf': "wf_heap h'" using AddChild_wf [OF ac wf n fresh] .
  have len: "length h' = Suc (length h)" and c: "c = length h"
    using AddChild_result [OF ac] by simp_all
  show "distinct (map (\<lambda>c. Name (h' ! c)) (Children (h' ! n)))"
    using wf_heap_distinct [OF wf'] n len by simp
  show "c \<in> set (Children (h' ! n))"
    unfolding AddChild_children [OF ac n] c by simp
  show "Name (h' ! c) = nm" using AddChild_new [OF ac n] by simp
qed

lemma AddDescendant_found:
  "wf_heap h \<Longrightarrow> n < length h \<Longrightarrow> plain (p # rest) \<Longrightarrow>
   AddDescendant h n b p rest = (h', g) \<Longrightarrow> Get h' n p rest = Some g"
proof (induction rest arbitrary: h n p)
  case Nil
  from Nil.prems(3) have pl: "p \<noteq> ''.''" "p \<noteq> ''..''" by (simp_all add: plain_def)
  show ?case
  proof (cases "dirNodeSlice_Get h (Children (h ! n)) p")
    case None
    with Nil.prems have ac: "AddChild h n p b = (h', g)" by simp
    from AddChild_found [OF ac Nil.prems(1,2) None] pl show ?thesis
      by (simp add: Get_next_def)
  next
    case (Some c)
    with Nil.prems pl show ?thesis by (simp add: Get_next_def)
  qed
next
  case (Cons q rest)
  from Cons.prems(3) have pl: "p \<noteq> ''.''" "p \<noteq> ''..''" and plr: "plain (q # rest)"
    by (simp_all add: plain_def)
  show ?case
  proof (cases "dirNodeSlice_Get h (Children (h ! n)) p")
    case None
    obtain h1 c where ac: "AddChild h n p None = (h1, c)" by (cases "AddChild h n p None")
    with None Cons.prems have rec: "AddDescendant h1 c b q rest = (h', g)" by simp
    have wf1: "wf_heap h1" using AddChild_wf [OF ac Cons.prems(1,2) None] .
    have len1: "length h1 = Suc (length h)" and c: "c = length h"
      using AddChild_result [OF ac] by simp_all
    have c1: "c < length h1" and n1: "n < length h1" using len1 c Cons.prems(2) by simp_all
    have nx1: "Get_next h1 n p = Some c"
      using AddChild_found [OF ac Cons.prems(1,2) None] pl by (simp add: Get_next_def)
    from AddDescendant_wf [OF wf1 c1 rec] have wf': "wf_heap h'" and ex: "heap_extends h1 h'"
      by simp_all
    from Get_next_preserved [OF wf1 wf' ex n1 nx1] Cons.IH [OF wf1 c1 plr rec]
    show ?thesis by simp
  next
    case (Some c)
    with Cons.prems have rec: "AddDescendant h c b q rest = (h', g)" by simp
    from slice_Get_Some [OF Some] have "c \<in> set (Children (h ! n))" by simp
    from wf_heap_child [OF Cons.prems(1,2) this] have cv: "c < length h" .
    have nx: "Get_next h n p = Some c" using Some pl by (simp add: Get_next_def)
    from AddDescendant_wf [OF Cons.prems(1) cv rec] have wf': "wf_heap h'" and ex: "heap_extends h h'"
      by simp_all
    from Get_next_preserved [OF Cons.prems(1) wf' ex Cons.prems(2) nx]
      Cons.IH [OF Cons.prems(1) cv plr rec]
    show ?thesis by simp
  qed
qed


lemma GetOrAdd_found:
  assumes wf: "wf_heap h" and n: "n < length h"
    and ok: "plain (p # rest) \<or> Get h n p rest \<noteq> None"
  shows "\<exists>h' g. GetOrAdd h n b (p # rest) = Inr (h', g) \<and> wf_heap h' \<and> g < length h' \<and>
           heap_extends h h' \<and> Get h' n p rest = Some g"
proof (cases "Get h n p rest")
  case None
  obtain h' g where ad: "AddDescendant h n b p rest = (h', g)"
    by (cases "AddDescendant h n b p rest")
  from None ok have pl: "plain (p # rest)" by simp
  from AddDescendant_wf [OF wf n ad] AddDescendant_found [OF wf n pl ad] None ad
  show ?thesis by (simp add: GetOrAdd_def)
next
  case (Some g)
  from Get_valid [OF wf n Some] wf Some show ?thesis
    by (simp add: GetOrAdd_def heap_extends_refl)
qed

lemma SetBytes_commit:
  assumes wf: "wf_fs fs"
    and ok: "plain (nameToPath p) \<or>
             (\<exists>r g. root (MemFS_init fs) = Some r \<and>
                dirNode_Get (heap (MemFS_init fs)) r (nameToPath p) = Inr (Some g))"
  shows "\<exists>r p0 rest h' g. root (MemFS_init fs) = Some r \<and> nameToPath p = p0 # rest \<and>
           wf_heap h' \<and> g < length h' \<and> heap_extends (heap (MemFS_init fs)) h' \<and>
           Get h' r p0 rest = Some g \<and>
           MemFS_SetBytes fs p b = (MemFS_init fs)\<lparr>heap := h'[g := (h' ! g)\<lparr>B := Some b\<rparr>]\<rparr>"
proof -
  let ?fs = "MemFS_init fs"
  obtain r where r: "root ?fs = Some r" using init_root [of fs] by (cases "root ?fs") auto
  have wf1: "wf_fs ?fs" using wf by (rule init_wf)
  then have rv: "r < length (heap ?fs)" and wh: "wf_heap (heap ?fs)" using r by (simp_all add: wf_fs_def)
  obtain p0 rest where path: "nameToPath p = p0 # rest"
    using nameToPath_nonempty [of p] by (cases "nameToPath p") auto
  from ok r path have ok': "plain (p0 # rest) \<or> Get (heap ?fs) r p0 rest \<noteq> None"
    by (auto simp add: dirNode_Get_def)
  from GetOrAdd_found [OF wh rv ok', of "Some b"] obtain h' g where
    goa: "GetOrAdd (heap ?fs) r (Some b) (p0 # rest) = Inr (h', g)"
    and res: "wf_heap h'" "g < length h'" "heap_extends (heap ?fs) h'" "Get h' r p0 rest = Some g"
    by blast
  have "MemFS_SetBytes fs p b = ?fs\<lparr>heap := h'[g := (h' ! g)\<lparr>B := Some b\<rparr>]\<rparr>"
    using r path goa
    by (simp add: SetBytes_Close MemFS_Create_def writeCloser_Write_def writeCloser_Close_def
        getBytes_Write)
  with r path res show ?thesis by blast
qed

text \<open>
  The round trip of \<open>Create\<close>, \<open>Write\<close>, \<open>Close\<close> and \<open>Open\<close> on one path, for the
  paths on which \<open>GetOrAdd\<close> and \<open>Get\<close> agree: a path with no segment \<open>.\<close> or \<open>..\<close>,
  or a path that resolves already. \<open>Open\<close> then returns a file handle over exactly the
  bytes written, whatever the node held before, and the file system stays well-formed, so
  a second round on the same path replaces the content again.
\<close>

theorem SetBytes_roundtrip:
  assumes wf: "wf_fs fs"
    and ok: "plain (nameToPath p) \<or>
             (\<exists>r g. root (MemFS_init fs) = Some r \<and>
                dirNode_Get (heap (MemFS_init fs)) r (nameToPath p) = Inr (Some g))"
  shows "wf_fs (MemFS_SetBytes fs p b) \<and>
         snd (MemFS_Open (MemFS_SetBytes fs p b) p) = Inr (FileHandle (MemFile p b))"
proof -
  let ?fs = "MemFS_init fs"
  from SetBytes_commit [OF wf ok, of b] obtain r p0 rest h' g where
    r: "root ?fs = Some r" and path: "nameToPath p = p0 # rest"
    and wh': "wf_heap h'" and gv: "g < length h'" and ex: "heap_extends (heap ?fs) h'"
    and get: "Get h' r p0 rest = Some g"
    and sb: "MemFS_SetBytes fs p b = ?fs\<lparr>heap := h'[g := (h' ! g)\<lparr>B := Some b\<rparr>]\<rparr>"
    by blast
  have wf1: "wf_fs ?fs" using wf by (rule init_wf)
  then have rv: "r < length (heap ?fs)" using r by (simp add: wf_fs_def)
  have rl: "r < length h'" using heap_extends_length [OF ex rv] .
  have w: "wf_fs (MemFS_SetBytes fs p b)"
    unfolding sb using r rl wf_heap_B_update [OF wh'] by (simp add: wf_fs_def)
  have o: "snd (MemFS_Open (MemFS_SetBytes fs p b) p) = Inr (FileHandle (MemFile p b))"
    unfolding sb
    by (subst Open_file [where r = r and p = p0 and rest = rest and g = g and c = b])
      (simp_all add: r path Get_B_update get gv)
  from w o show ?thesis ..
qed

section \<open>The empty file\<close>

lemma Get_snoc:
  "Get h n p (rest @ [q]) = (case Get h n p rest of None \<Rightarrow> None | Some g \<Rightarrow> Get_next h g q)"
  by (induction rest arbitrary: n p) (simp_all split: option.splits)

lemma nameToPath_slash:
  "nameToPath (a @ CHR ''/'' # b) = nameToPath a @ nameToPath b"
proof (induction a)
  case Nil
  then show ?case by simp
next
  case (Cons c a)
  obtain s ss where sp: "nameToPath a = s # ss"
    using nameToPath_nonempty [of a] by (cases "nameToPath a") auto
  with Cons show ?case by simp
qed

lemma Get_plain_last:
  "wf_heap h \<Longrightarrow> n < length h \<Longrightarrow> plain (p # rest) \<Longrightarrow> Get h n p rest = Some g \<Longrightarrow>
   \<exists>pa<length h. g \<in> set (Children (h ! pa)) \<and> Name (h ! g) = last (p # rest)"
proof (induction rest arbitrary: n p)
  case Nil
  from Nil.prems(3) have pl: "p \<noteq> ''.''" "p \<noteq> ''..''" by (simp_all add: plain_def)
  with Nil.prems(4) have "dirNodeSlice_Get h (Children (h ! n)) p = Some g"
    by (simp add: Get_next_def)
  from slice_Get_Some [OF this] Nil.prems(2) show ?case by auto
next
  case (Cons q rest)
  from Cons.prems(3) have plr: "plain (q # rest)" by (simp add: plain_def)
  from Cons.prems(4) obtain nx where
    nx: "Get_next h n p = Some nx" and rec: "Get h nx q rest = Some g"
    by (auto split: option.splits)
  have nxv: "nx < length h" using Get_next_valid [OF Cons.prems(1,2) nx] .
  from Cons.IH [OF Cons.prems(1) nxv plr rec] show ?case by simp
qed


lemma Create_Close_SetBytes:
  "fst (writeCloser_Close (fst (MemFS_Create fs p)) (snd (MemFS_Create fs p))) = MemFS_SetBytes fs p []"
  by (simp add: SetBytes_Close writeCloser_Write_def Buffer_Write_def MemFS_Create_def)

lemma ReadDir_dir:
  "root fs = Some r \<Longrightarrow> nameToPath d = p # rest \<Longrightarrow> Get (heap fs) r p rest = Some node \<Longrightarrow>
   IsDirectory (heap fs ! node) \<Longrightarrow>
   MemFS_ReadDir fs d =
     (fs, Inr (sort_key de_name
        (map (\<lambda>child. DirEntry (Name (heap fs ! child)) (IsDirectory (heap fs ! child)))
           (Children (heap fs ! node)))))"
  by (simp add: MemFS_ReadDir_def init_Some dirNode_Get_def Let_def)

text \<open>
  Claim C10, as stated, fails where the parent of \<open>p\<close> is a file. \<open>file1\<close> is a file
  with content; \<open>Create(file1/empty)\<close> and \<open>Close\<close> add the node \<open>empty\<close> below it
  (\<open>AddDescendant\<close> does not look at the kind of the nodes it walks through). \<open>Open\<close> of
  the new path gives an empty file, but its parent \<open>file1\<close> is still a file: \<open>ReadDir\<close>
  of the parent fails with \<open>ErrNotFound\<close>, so there is no listing with an entry for \<open>p\<close>.
\<close>

theorem empty_file_under_file_counterexample:
  "(case MemFS_Create (MemFS_SetBytes MemFS_zero ''file1'' [11, 12, 13]) ''file1/empty'' of
      (fs1, wc) \<Rightarrow>
        (let fs2 = fst (writeCloser_Close fs1 wc) in
         snd (MemFS_Open fs2 ''file1/empty'') = Inr (FileHandle (MemFile ''file1/empty'' [])) \<and>
         snd (MemFS_Open fs2 ''file1'') = Inr (FileHandle (MemFile ''file1'' [11, 12, 13])) \<and>
         snd (MemFS_ReadDir fs2 ''file1'') = Inl ErrNotFound \<and>
         snd (MemFS_ReadDir fs2 ''file1/empty/..'') = Inl ErrNotFound))"
  by code_simp

text \<open>
  Claim C10, amended. In a well-formed file system, for a path \<open>p\<close> with no segment \<open>.\<close>
  or \<open>..\<close>: after \<open>Create(p)\<close> and \<open>Close\<close> with nothing written, \<open>Open(p)\<close> returns a
  file handle (not a directory handle, not \<open>ErrNotFound\<close>) whose full read returns no
  bytes; and either the parent of \<open>p\<close> (reached as \<open>p/..\<close>) is itself a file, or
  \<open>ReadDir\<close> of the parent succeeds and lists \<open>p\<close>'s base name with \<open>isDir\<close> false and
  not with \<open>isDir\<close> true.
\<close>

theorem Create_empty_is_file:
  assumes wf: "wf_fs fs" and pl: "plain (nameToPath p)"
  shows "(let fs' = fst (writeCloser_Close (fst (MemFS_Create fs p)) (snd (MemFS_Create fs p))) in
          snd (MemFS_Open fs' p) = Inr (FileHandle (MemFile p [])) \<and>
          ReadAll (MemFile p []) = ([], None) \<and>
          ((\<exists>f. snd (MemFS_Open fs' (p @ ''/..'')) = Inr (FileHandle f)) \<or>
           (\<exists>es. snd (MemFS_ReadDir fs' (p @ ''/..'')) = Inr es \<and>
              DirEntry (last (nameToPath p)) False \<in> set es \<and>
              DirEntry (last (nameToPath p)) True \<notin> set es)))"
proof -
  let ?fs = "MemFS_init fs"
  have ok: "plain (nameToPath p) \<or>
             (\<exists>r g. root ?fs = Some r \<and> dirNode_Get (heap ?fs) r (nameToPath p) = Inr (Some g))"
    using pl by simp
  from SetBytes_commit [OF wf ok, of "[]"] obtain r p0 rest h' g where
    r: "root ?fs = Some r" and path: "nameToPath p = p0 # rest"
    and wh': "wf_heap h'" and gv: "g < length h'" and ex: "heap_extends (heap ?fs) h'"
    and get: "Get h' r p0 rest = Some g"
    and sb: "MemFS_SetBytes fs p [] = ?fs\<lparr>heap := h'[g := (h' ! g)\<lparr>B := Some []\<rparr>]\<rparr>"
    by blast
  let ?h = "h'[g := (h' ! g)\<lparr>B := Some []\<rparr>]"
  let ?fs' = "?fs\<lparr>heap := ?h\<rparr>"
  have root': "root ?fs' = Some r" using r by simp
  have heap': "heap ?fs' = ?h" by simp
  have wf1: "wf_fs ?fs" using wf by (rule init_wf)
  then have rv: "r < length (heap ?fs)" using r by (simp add: wf_fs_def)
  have rl: "r < length h'" using heap_extends_length [OF ex rv] .
  have wh: "wf_heap ?h" using wf_heap_B_update [OF wh'] .
  have get': "Get ?h r p0 rest = Some g" using get by (simp add: Get_B_update)
  have Bg: "B (?h ! g) = Some []" using gv by simp
  have o: "snd (MemFS_Open ?fs' p) = Inr (FileHandle (MemFile p []))"
    using Open_file [OF root' path, of g "[]"] get' Bg by simp
  \<comment> \<open>the node's parent\<close>
  have lenh: "length ?h = length h'" by simp
  from pl path have plp: "plain (p0 # rest)" by simp
  from Get_plain_last [OF wh _ plp get'] rl lenh obtain pa where
    pav: "pa < length ?h" and gin: "g \<in> set (Children (?h ! pa))"
    and gname: "Name (?h ! g) = last (p0 # rest)"
    by auto
  have par: "Parent (?h ! g) = Some pa" using wf_heap_child_parent [OF wh pav gin] .
  have path2: "nameToPath (p @ ''/..'') = p0 # (rest @ [''..''])"
    using nameToPath_slash [of p "''..''"] path by simp
  have get2: "Get ?h r p0 (rest @ [''..'']) = Some pa"
    using get' par by (simp add: Get_snoc Get_next_def)
  have lastp: "last (nameToPath p) = last (p0 # rest)" using path by simp
  have parent: "(\<exists>f. snd (MemFS_Open ?fs' (p @ ''/..'')) = Inr (FileHandle f)) \<or>
           (\<exists>es. snd (MemFS_ReadDir ?fs' (p @ ''/..'')) = Inr es \<and>
              DirEntry (last (nameToPath p)) False \<in> set es \<and>
              DirEntry (last (nameToPath p)) True \<notin> set es)"
  proof (cases "IsDirectory (?h ! pa)")
    case False
    then obtain c where "B (?h ! pa) = Some c" by (auto simp add: IsDirectory_def)
    from Open_file [OF root' path2, of pa c] get2 this show ?thesis by auto
  next
    case True
    let ?entry = "\<lambda>child. DirEntry (Name (?h ! child)) (IsDirectory (?h ! child))"
    let ?es = "sort_key de_name (map ?entry (Children (?h ! pa)))"
    have rd: "snd (MemFS_ReadDir ?fs' (p @ ''/..'')) = Inr ?es"
      using ReadDir_dir [OF root' path2, of pa] get2 True by simp
    have gfile: "\<not> IsDirectory (?h ! g)" using Bg by (simp add: IsDirectory_def)
    have "?entry g \<in> set ?es" using gin by simp
    then have e1: "DirEntry (last (nameToPath p)) False \<in> set ?es"
      using gname gfile lastp by simp
    have e2: "DirEntry (last (nameToPath p)) True \<notin> set ?es"
    proof
      assume "DirEntry (last (nameToPath p)) True \<in> set ?es"
      then obtain c where cin: "c \<in> set (Children (?h ! pa))"
        and cname: "Name (?h ! c) = last (nameToPath p)" and cdir: "IsDirectory (?h ! c)"
        by auto
      have "distinct (map (\<lambda>c. Name (?h ! c)) (Children (?h ! pa)))"
        using wf_heap_distinct [OF wh pav] .
      then have "inj_on (\<lambda>c. Name (?h ! c)) (set (Children (?h ! pa)))"
        by (simp add: distinct_map)
      from inj_onD [OF this _ cin gin] cname gname lastp have "c = g" by simp
      with cdir gfile show False by simp
    qed
    from rd e1 e2 show ?thesis by blast
  qed
  have ra: "ReadAll (MemFile p []) = ([], None)" by (rule ReadAll_MemFile)
  from o ra parent show ?thesis
    unfolding Let_def Create_Close_SetBytes sb by blast
qed

theorem Create_empty_is_file_witness:
  "wf_fs test_fs \<and> plain (nameToPath ''dir4/empty'') \<and>
   (let fs' = fst (writeCloser_Close (fst (MemFS_Create test_fs ''dir4/empty''))
                     (snd (MemFS_Create test_fs ''dir4/empty''))) in
    snd (MemFS_Open fs' ''dir4/empty'') = Inr (FileHandle (MemFile ''dir4/empty'' [])) \<and>
    ReadAll (MemFile ''dir4/empty'' []) = ([], None) \<and>
    snd (MemFS_ReadDir fs' ''dir4/empty/..'') =
      Inr [DirEntry ''dir5'' True, DirEntry ''empty'' False])"
proof -
  have h1: "wf_fs test_fs" by code_simp
  have h2: "plain (nameToPath ''dir4/empty'')" by code_simp
  have rd: "snd (MemFS_ReadDir (fst (writeCloser_Close (fst (MemFS_Create test_fs ''dir4/empty''))
                     (snd (MemFS_Create test_fs ''dir4/empty''))))  ''dir4/empty/..'') =
      Inr [DirEntry ''dir5'' True, DirEntry ''empty'' False]"
    by code_simp
  from Create_empty_is_file [OF h1 h2] h1 h2 rd show ?thesis
    by (simp add: Let_def)
qed

section \<open>Append\<close>

text \<open>
  Claim C3, as stated, fails. \<open>file1\<close> holds \<open>[12, 13, 14]\<close> when \<open>Append\<close> is called;
  before that handle is closed another writer creates \<open>file1\<close> anew with \<open>[1]\<close> and
  closes; then \<open>[15, 16]\<close> is written to the append handle and it is closed. The file
  now reads \<open>[1, 15, 16]\<close>: the other writer's commit is kept and appended to. The claim
  has \<open>[12, 13, 14, 15, 16]\<close>, the content at the time of \<open>Append\<close> followed by the
  bytes written, the other commit lost.
\<close>

theorem Append_snapshot_counterexample:
  "(case MemFS_Append (MemFS_SetBytes MemFS_zero ''file1'' [12, 13, 14]) ''file1'' of
      (fs2, Inl e) \<Rightarrow> False
    | (fs2, Inr wc) \<Rightarrow>
        snd (MemFS_Open
               (fst (writeCloser_Close (MemFS_SetBytes fs2 ''file1'' [1])
                       (fst (writeCloser_Write wc [15, 16]))))
               ''file1'') =
          Inr (FileHandle (MemFile ''file1'' [1, 15, 16])))"
  by code_simp

text \<open>
  Claim C3, amended. In a well-formed file system:
  \<^item> if \<open>p\<close> resolves to no node, \<open>Append(p)\<close> returns what \<open>Create(p)\<close> returns;
  \<^item> if \<open>p\<close> resolves to a node with content \<open>c\<close>, \<open>Append(p)\<close> returns a handle, and
    after writing \<open>b\<close> and closing it \<open>Open(p)\<close> gives a file handle over \<open>c @ b\<close> when
    nothing was committed in between;
  \<^item> the close appends to the content the node has at that time: when another writer
    has run \<open>Create(p)\<close>, \<open>Write(x)\<close>, \<open>Close\<close> in between, \<open>Open(p)\<close> gives a file
    handle over \<open>x @ b\<close>; and in any later state, where the node holds \<open>y\<close>, it holds
    \<open>y @ b\<close> after the close.
\<close>

theorem Append_commits_to_live_content:
  assumes wf: "wf_fs fs" and r: "root (MemFS_init fs) = Some r"
  shows "(dirNode_Get (heap (MemFS_init fs)) r (nameToPath p) = Inr None \<longrightarrow>
            MemFS_Append fs p = (MemFS_init fs, Inr (snd (MemFS_Create fs p)))) \<and>
         (\<forall>got c. dirNode_Get (heap (MemFS_init fs)) r (nameToPath p) = Inr (Some got) \<and>
              B (heap (MemFS_init fs) ! got) = Some c \<longrightarrow>
            (\<exists>wc. MemFS_Append fs p = (MemFS_init fs, Inr wc) \<and>
               snd (MemFS_Open (fst (writeCloser_Close (MemFS_init fs) (fst (writeCloser_Write wc b)))) p) =
                 Inr (FileHandle (MemFile p (c @ b))) \<and>
               snd (MemFS_Open (fst (writeCloser_Close (MemFS_SetBytes (MemFS_init fs) p x)
                       (fst (writeCloser_Write wc b)))) p) =
                 Inr (FileHandle (MemFile p (x @ b))) \<and>
               (\<forall>fs' y. got < length (heap fs') \<and> B (heap fs' ! got) = Some y \<longrightarrow>
                  B (heap (fst (writeCloser_Close fs' (fst (writeCloser_Write wc b)))) ! got) =
                    Some (y @ b))))"
proof (intro conjI impI allI)
  assume "dirNode_Get (heap (MemFS_init fs)) r (nameToPath p) = Inr None"
  with r show "MemFS_Append fs p = (MemFS_init fs, Inr (snd (MemFS_Create fs p)))"
    by (simp add: MemFS_Append_def MemFS_Create_def init_idem)
next
  fix got c
  assume a: "dirNode_Get (heap (MemFS_init fs)) r (nameToPath p) = Inr (Some got) \<and>
              B (heap (MemFS_init fs) ! got) = Some c"
  let ?fs = "MemFS_init fs"
  let ?h = "heap ?fs"
  let ?wc = "WriteCloser None (Some (updateNode got))"
  let ?wc' = "fst (writeCloser_Write ?wc b)"
  obtain p0 rest where path: "nameToPath p = p0 # rest"
    using nameToPath_nonempty [of p] by (cases "nameToPath p") auto
  from a path have get: "Get ?h r p0 rest = Some got" and c: "B (?h ! got) = Some c"
    by (simp_all add: dirNode_Get_def)
  have wf1: "wf_fs ?fs" using wf by (rule init_wf)
  then have rv: "r < length ?h" and wh: "wf_heap ?h" using r by (simp_all add: wf_fs_def)
  have gv: "got < length ?h" using Get_valid [OF wh rv get] .
  have app: "MemFS_Append fs p = (?fs, Inr ?wc)"
    using r a by (simp add: MemFS_Append_def)
  have fn: "wc_closeFn ?wc' = Some (updateNode got)" and buf: "getBytes (wc_w ?wc') = Some b"
    by (simp_all add: writeCloser_Write_def getBytes_Write)
  \<comment> \<open>no commit in between\<close>
  let ?fs2 = "fst (writeCloser_Close ?fs ?wc')"
  have fs2: "?fs2 = ?fs\<lparr>heap := ?h[got := (?h ! got)\<lparr>B := Some (c @ b)\<rparr>]\<rparr>"
    by (simp add: Close_update [OF fn] buf c go_append_Some_Some)
  have o1: "snd (MemFS_Open ?fs2 p) = Inr (FileHandle (MemFile p (c @ b)))"
    unfolding fs2
    by (subst Open_file [where r = r and p = p0 and rest = rest and g = got and c = "c @ b"])
      (simp_all add: r path Get_B_update get gv)
  \<comment> \<open>another writer's Create, Write and Close in between\<close>
  let ?wx = "fst (writeCloser_Write (WriteCloser None (Some (addNode p))) x)"
  have fnx: "wc_closeFn ?wx = Some (addNode p)" and bufx: "getBytes (wc_w ?wx) = Some x"
    by (simp_all add: writeCloser_Write_def getBytes_Write)
  let ?hx = "?h[got := (?h ! got)\<lparr>B := Some x\<rparr>]"
  have sb0: "MemFS_SetBytes ?fs p x = fst (writeCloser_Close ?fs ?wx)"
    by (simp add: MemFS_SetBytes_def MemFS_Create_def init_idem split_beta)
  have sb: "MemFS_SetBytes ?fs p x = ?fs\<lparr>heap := ?hx\<rparr>"
    unfolding sb0 using Close_add_found [OF fnx r path get] by (simp add: bufx)
  let ?fs3 = "fst (writeCloser_Close (MemFS_SetBytes ?fs p x) ?wc')"
  have fs3: "?fs3 = ?fs\<lparr>heap := ?hx[got := (?hx ! got)\<lparr>B := Some (x @ b)\<rparr>]\<rparr>"
    by (simp add: Close_update [OF fn] buf sb gv go_append_Some_Some)
  have o2: "snd (MemFS_Open ?fs3 p) = Inr (FileHandle (MemFile p (x @ b)))"
    unfolding fs3
    by (subst Open_file [where r = r and p = p0 and rest = rest and g = got and c = "x @ b"])
      (simp_all add: r path Get_B_update get gv)
  have o3: "B (heap (fst (writeCloser_Close fs' ?wc')) ! got) = Some (y @ b)"
    if "got < length (heap fs') \<and> B (heap fs' ! got) = Some y" for fs' y
    using that by (simp add: Close_update [OF fn] buf go_append_Some_Some)
  from app o1 o2 o3
  show "\<exists>wc. MemFS_Append fs p = (MemFS_init fs, Inr wc) \<and>
               snd (MemFS_Open (fst (writeCloser_Close (MemFS_init fs) (fst (writeCloser_Write wc b)))) p) =
                 Inr (FileHandle (MemFile p (c @ b))) \<and>
               snd (MemFS_Open (fst (writeCloser_Close (MemFS_SetBytes (MemFS_init fs) p x)
                       (fst (writeCloser_Write wc b)))) p) =
                 Inr (FileHandle (MemFile p (x @ b))) \<and>
               (\<forall>fs' y. got < length (heap fs') \<and> B (heap fs' ! got) = Some y \<longrightarrow>
                  B (heap (fst (writeCloser_Close fs' (fst (writeCloser_Write wc b)))) ! got) =
                    Some (y @ b))"
    by blast
qed

lemma file1_fs_value:
  "MemFS_SetBytes MemFS_zero ''file1'' [12, 13, 14] =
     \<lparr>root = Some 0,
      heap =
        [\<lparr>Name = [], Parent = None, Children = [1], B = None\<rparr>,
         \<lparr>Name = ''file1'', Parent = Some 0, Children = [], B = Some [12, 13, 14]\<rparr>]\<rparr>"
  by code_simp

theorem Append_commits_to_live_content_witness:
  "wf_fs (MemFS_SetBytes MemFS_zero ''file1'' [12, 13, 14]) \<and>
   root (MemFS_init (MemFS_SetBytes MemFS_zero ''file1'' [12, 13, 14])) = Some 0 \<and>
   dirNode_Get (heap (MemFS_init (MemFS_SetBytes MemFS_zero ''file1'' [12, 13, 14]))) 0
     (nameToPath ''file3'') = Inr None \<and>
   MemFS_Append (MemFS_SetBytes MemFS_zero ''file1'' [12, 13, 14]) ''file3'' =
     (MemFS_init (MemFS_SetBytes MemFS_zero ''file1'' [12, 13, 14]),
      Inr (snd (MemFS_Create (MemFS_SetBytes MemFS_zero ''file1'' [12, 13, 14]) ''file3''))) \<and>
   dirNode_Get (heap (MemFS_init (MemFS_SetBytes MemFS_zero ''file1'' [12, 13, 14]))) 0
     (nameToPath ''file1'') = Inr (Some 1) \<and>
   B (heap (MemFS_init (MemFS_SetBytes MemFS_zero ''file1'' [12, 13, 14])) ! 1) = Some [12, 13, 14] \<and>
   (\<exists>wc. MemFS_Append (MemFS_SetBytes MemFS_zero ''file1'' [12, 13, 14]) ''file1'' =
            (MemFS_init (MemFS_SetBytes MemFS_zero ''file1'' [12, 13, 14]), Inr wc) \<and>
      snd (MemFS_Open (fst (writeCloser_Close
             (MemFS_init (MemFS_SetBytes MemFS_zero ''file1'' [12, 13, 14]))
             (fst (writeCloser_Write wc [15, 16])))) ''file1'') =
        Inr (FileHandle (MemFile ''file1'' [12, 13, 14, 15, 16])) \<and>
      snd (MemFS_Open (fst (writeCloser_Close
             (MemFS_SetBytes (MemFS_init (MemFS_SetBytes MemFS_zero ''file1'' [12, 13, 14])) ''file1'' [1])
             (fst (writeCloser_Write wc [15, 16])))) ''file1'') =
        Inr (FileHandle (MemFile ''file1'' [1, 15, 16])))"
proof -
  let ?fs = "MemFS_SetBytes MemFS_zero ''file1'' [12, 13, 14]"
  have init: "MemFS_init ?fs = ?fs"
    by (simp add: file1_fs_value MemFS_init_def)
  have h1: "wf_fs ?fs"
    by code_simp
  have h2: "root (MemFS_init ?fs) = Some 0"
    unfolding init by (simp add: file1_fs_value)
  have h3: "dirNode_Get (heap (MemFS_init ?fs)) 0 (nameToPath ''file3'') = Inr None"
    unfolding init by (simp add: file1_fs_value dirNode_Get_def Get_next_def dirNodeSlice_Get_def)
  have h4: "dirNode_Get (heap (MemFS_init ?fs)) 0 (nameToPath ''file1'') = Inr (Some 1)"
    unfolding init by (simp add: file1_fs_value dirNode_Get_def Get_next_def dirNodeSlice_Get_def)
  have h5: "B (heap (MemFS_init ?fs) ! 1) = Some [12, 13, 14]"
    unfolding init by (simp add: file1_fs_value)
  from Append_commits_to_live_content [OF h1 h2, of "''file3''"] h3
  have a: "MemFS_Append ?fs ''file3'' = (MemFS_init ?fs, Inr (snd (MemFS_Create ?fs ''file3'')))"
    by blast
  from Append_commits_to_live_content [OF h1 h2, of "''file1''" "[15, 16]" "[1]"] h4 h5
  have b: "\<exists>wc. MemFS_Append ?fs ''file1'' = (MemFS_init ?fs, Inr wc) \<and>
      snd (MemFS_Open (fst (writeCloser_Close (MemFS_init ?fs)
             (fst (writeCloser_Write wc [15, 16])))) ''file1'') =
        Inr (FileHandle (MemFile ''file1'' ([12, 13, 14] @ [15, 16]))) \<and>
      snd (MemFS_Open (fst (writeCloser_Close (MemFS_SetBytes (MemFS_init ?fs) ''file1'' [1])
             (fst (writeCloser_Write wc [15, 16])))) ''file1'') =
        Inr (FileHandle (MemFile ''file1'' ([1] @ [15, 16])))"
    by blast
  from h1 h2 h3 h4 h5 a b show ?thesis by simp
qed

section \<open>Node kinds\<close>

text \<open>
  Claim C9, as stated, fails. After \<open>dir1/file1A\<close> is created, \<open>dir1\<close> is a directory
  (cell 1 of the store). \<open>Create(dir1)\<close>, \<open>Write([1])\<close>, \<open>Close\<close> find that node and set
  its content: the same cell is now a file, \<open>Open\<close> returns a file handle for it, and it
  still owns its child \<open>file1A\<close>, which \<open>Open\<close> still reaches through it.
\<close>

theorem directory_becomes_file_counterexample:
  "(let fs1 = MemFS_SetBytes MemFS_zero ''dir1/file1A'' [];
        fs2 = MemFS_SetBytes fs1 ''dir1'' [1]
    in snd (MemFS_Open fs1 ''dir1'') = Inr (DirHandle (MemDir ''dir1'' None)) \<and>
       snd (MemFS_Open fs2 ''dir1'') = Inr (FileHandle (MemFile ''dir1'' [1])) \<and>
       Name (heap fs1 ! 1) = ''dir1'' \<and> IsDirectory (heap fs1 ! 1) \<and>
       Name (heap fs2 ! 1) = ''dir1'' \<and> \<not> IsDirectory (heap fs2 ! 1) \<and>
       Children (heap fs2 ! 1) = [2] \<and>
       snd (MemFS_Open fs2 ''dir1/file1A'') = Inr (FileHandle (MemFile ''dir1/file1A'' [])))"
  by code_simp

text \<open>
  Claim C9, amended. Along any run from a well-formed file system: the file system stays
  well-formed (so the children of a node keep distinct names), no cell is removed, every
  cell keeps its name, its parent and the children it has, and a cell that is a file stays
  a file. (A node is
  a directory exactly when its content is nil, so it has one kind at a time by
  definition of \<open>IsDirectory\<close>.)
\<close>

theorem node_kind_invariant:
  assumes "rtranclp step fs fs'" and "wf_fs fs"
  shows "wf_fs fs' \<and> length (heap fs) \<le> length (heap fs') \<and>
         (\<forall>a<length (heap fs).
            Name (heap fs' ! a) = Name (heap fs ! a) \<and>
            Parent (heap fs' ! a) = Parent (heap fs ! a) \<and>
            set (Children (heap fs ! a)) \<subseteq> set (Children (heap fs' ! a)) \<and>
            (\<not> IsDirectory (heap fs ! a) \<longrightarrow> \<not> IsDirectory (heap fs' ! a)))"
  using steps_wf [OF assms] by (simp add: heap_extends_def IsDirectory_def)

theorem node_kind_invariant_witness:
  "rtranclp step (MemFS_SetBytes MemFS_zero ''file1'' [12, 13, 14])
     (MemFS_SetBytes (MemFS_SetBytes MemFS_zero ''file1'' [12, 13, 14]) ''dir1/file1A'' []) \<and>
   wf_fs (MemFS_SetBytes MemFS_zero ''file1'' [12, 13, 14]) \<and>
   wf_fs (MemFS_SetBytes (MemFS_SetBytes MemFS_zero ''file1'' [12, 13, 14]) ''dir1/file1A'' []) \<and>
   \<not> IsDirectory (heap (MemFS_SetBytes MemFS_zero ''file1'' [12, 13, 14]) ! 1) \<and>
   \<not> IsDirectory
       (heap (MemFS_SetBytes (MemFS_SetBytes MemFS_zero ''file1'' [12, 13, 14]) ''dir1/file1A'' []) ! 1) \<and>
   Name (heap (MemFS_SetBytes (MemFS_SetBytes MemFS_zero ''file1'' [12, 13, 14]) ''dir1/file1A'' []) ! 1) =
     ''file1''"
proof -
  let ?fs = "MemFS_SetBytes MemFS_zero ''file1'' [12, 13, 14]"
  let ?fs' = "MemFS_SetBytes ?fs ''dir1/file1A'' []"
  have h1: "rtranclp step ?fs ?fs'" by (rule SetBytes_steps)
  have h2: "wf_fs ?fs" by code_simp
  have isfile: "\<not> IsDirectory (heap ?fs ! 1)" by (simp add: file1_fs_value IsDirectory_def)
  have name: "Name (heap ?fs ! 1) = ''file1''" by (simp add: file1_fs_value)
  have len: "1 < length (heap ?fs)" by (simp add: file1_fs_value)
  from node_kind_invariant [OF h1 h2] len isfile name h1 h2 show ?thesis by simp
qed

section \<open>Where the code departs from its contract\<close>

text \<open>
  Claim C2 at the path \<open>./file1\<close> of an empty file system: \<open>Create\<close>, \<open>Write\<close> of
  \<open>[11, 12, 13]\<close> and \<open>Close\<close> put the bytes in a node \<open>file1\<close> under a new directory
  whose name is \<open>.\<close> (\<open>AddDescendant\<close> has no case for the segments \<open>.\<close> and \<open>..\<close>
  that \<open>Get\<close> resolves), and \<open>Open\<close> of the same path fails with \<open>ErrNotFound\<close>.
\<close>

theorem create_dot_path_not_found:
  "MemFS_SetBytes MemFS_zero ''./file1'' [11, 12, 13] =
     \<lparr>root = Some 0,
      heap =
        [\<lparr>Name = [], Parent = None, Children = [1], B = None\<rparr>,
         \<lparr>Name = ''.'', Parent = Some 0, Children = [2], B = None\<rparr>,
         \<lparr>Name = ''file1'', Parent = Some 1, Children = [], B = Some [11, 12, 13]\<rparr>]\<rparr> \<and>
   snd (MemFS_Open (MemFS_SetBytes MemFS_zero ''./file1'' [11, 12, 13]) ''./file1'') =
     Inl ErrNotFound"
  by code_simp

text \<open>
  The same defect in the empty-file scenario, at the path \<open>./empty\<close> of an empty file
  system: after \<open>Create\<close> and \<open>Close\<close> with nothing written, the committed node is a
  file (its content is the empty non-nil slice), but it sits under a directory named
  \<open>.\<close>, so \<open>Open\<close> of the path fails with \<open>ErrNotFound\<close> and the listing of the root
  shows the directory \<open>.\<close> and no entry \<open>empty\<close>.
\<close>

theorem create_empty_dot_path_not_found:
  "(case MemFS_Create MemFS_zero ''./empty'' of
      (fs1, wc) \<Rightarrow>
        (let fs2 = fst (writeCloser_Close fs1 wc) in
         heap fs2 =
           [\<lparr>Name = [], Parent = None, Children = [1], B = None\<rparr>,
            \<lparr>Name = ''.'', Parent = Some 0, Children = [2], B = None\<rparr>,
            \<lparr>Name = ''empty'', Parent = Some 1, Children = [], B = Some []\<rparr>] \<and>
         snd (MemFS_Open fs2 ''./empty'') = Inl ErrNotFound \<and>
         snd (MemFS_ReadDir fs2 ''./empty/..'') = Inl ErrNotFound \<and>
         snd (MemFS_ReadDir fs2 ''.'') = Inr [DirEntry ''.'' True]))"
  by code_simp

text \<open>
  Resolution, as \<open>Get\<close> does it: \<open>.\<close> is the node itself, \<open>..\<close> its parent (nil at the
  root), any other segment the child of that name; a segment that leads nowhere makes the
  whole path resolve to nil. On a path that resolves to nil, \<open>Open\<close> and \<open>ReadDir\<close> fail
  with \<open>ErrNotFound\<close> and leave the initialised state as it is; \<open>ListFiles\<close> panics.
\<close>

lemma Get_next_dot: "Get_next h node ''.'' = Some node"
  by (simp add: Get_next_def)

lemma Get_next_dotdot: "Get_next h node ''..'' = Parent (h ! node)"
  by (simp add: Get_next_def)

lemma Get_next_child:
  "p \<noteq> ''.'' \<Longrightarrow> p \<noteq> ''..'' \<Longrightarrow> Get_next h node p = dirNodeSlice_Get h (Children (h ! node)) p"
  by (simp add: Get_next_def)

lemma Get_stuck: "Get_next h node p = None \<Longrightarrow> Get h node p rest = None"
  by (cases rest) simp_all

lemma absent_path:
  assumes "root (MemFS_init fs) = Some r"
    and "dirNode_Get (heap (MemFS_init fs)) r (nameToPath p) = Inr None"
  shows "MemFS_Open fs p = (MemFS_init fs, Inl ErrNotFound) \<and>
         MemFS_ReadDir fs p = (MemFS_init fs, Inl ErrNotFound) \<and>
         MemFS_ListFiles fs p = Some (MemFS_init fs, Inl nil_deref)"
  using assms by (simp add: MemFS_Open_def MemFS_ReadDir_def MemFS_ListFiles_def Let_def)

text \<open>
  Claim C6 at a path with no node, \<open>file.txt\<close> in an empty file system: \<open>Open\<close> and
  \<open>ReadDir\<close> fail with \<open>ErrNotFound\<close>, but \<open>ListFiles\<close> panics: its guard is
  \<open>node != nil && !node.IsDirectory()\<close>, so a nil node reaches \<open>DFS\<close>, whose callback
  dereferences it in \<open>Path\<close>.
\<close>

theorem ListFiles_absent_path_panics:
  "MemFS_ListFiles MemFS_zero ''file.txt'' = Some (MemFS_init MemFS_zero, Inl nil_deref) \<and>
   MemFS_ReadDir MemFS_zero ''file.txt'' = (MemFS_init MemFS_zero, Inl ErrNotFound) \<and>
   MemFS_Open MemFS_zero ''file.txt'' = (MemFS_init MemFS_zero, Inl ErrNotFound)"
  by code_simp

text \<open>
  Claim C8 at the directory \<open>dir2\<close> of the battery's file system, whose direct files are
  \<open>file2A\<close> and \<open>file2B\<close>: \<open>ListFiles\<close> returns the full path of the directory itself
  and of every node below it, the subdirectory \<open>dir3\<close> and its files included.
\<close>

theorem ListFiles_lists_whole_subtree:
  "MemFS_ListFiles test_fs ''dir2'' =
     Some (test_fs, Inr [''/dir2'', ''/dir2/dir3'', ''/dir2/dir3/file3A'', ''/dir2/dir3/file3B'',
        ''/dir2/file2A'', ''/dir2/file2B''])"
  by code_simp

end
